theory Spec2Isabelle
  imports Main "HOL-Library.Word" "HOL-Library.Signed_Division"
begin

section \<open>Geometry kernel\<close>

text \<open>
  The planner in \<^verbatim>\<open>core/src/plan.cpp\<close> works on \<^verbatim>\<open>one::gvt< 3 >\<close>, declared in
  \<^verbatim>\<open>oneseismic/geometry.hpp\<close>. Points, shapes and fragment ids are arrays of three
  \<^verbatim>\<open>std::size_t\<close>; they are triples of naturals here, read with \<open>coord\<close>.
\<close>

type_synonym vec3 = "nat \<times> nat \<times> nat"

fun coord :: "vec3 \<Rightarrow> nat \<Rightarrow> nat" where
  "coord (a, b, c) i = (if i = 0 then a else if i = 1 then b else c)"

record gvt =
  cube_shape :: vec3
  fragment_shape :: vec3

text \<open>
  Modelled from the spec: the member functions of \<^verbatim>\<open>gvt\<close> (the header and its
  implementation are not among the sources; only their tests and callers are).
  \<open>to_local\<close> is componentwise \<open>p[i] mod FragmentShape[i]\<close>, \<open>frag_id\<close> is componentwise
  integer division, \<open>to_global\<close> is \<open>id[i] * FragmentShape[i] + local[i]\<close>.
\<close>

definition to_local :: "gvt \<Rightarrow> vec3 \<Rightarrow> vec3" where
  "to_local g p =
     (coord p 0 mod coord (fragment_shape g) 0,
      coord p 1 mod coord (fragment_shape g) 1,
      coord p 2 mod coord (fragment_shape g) 2)"

definition frag_id :: "gvt \<Rightarrow> vec3 \<Rightarrow> vec3" where
  "frag_id g p =
     (coord p 0 div coord (fragment_shape g) 0,
      coord p 1 div coord (fragment_shape g) 1,
      coord p 2 div coord (fragment_shape g) 2)"

definition to_global :: "gvt \<Rightarrow> vec3 \<Rightarrow> vec3 \<Rightarrow> vec3" where
  "to_global g fid l =
     (coord fid 0 * coord (fragment_shape g) 0 + coord l 0,
      coord fid 1 * coord (fragment_shape g) 1 + coord l 1,
      coord fid 2 * coord (fragment_shape g) 2 + coord l 2)"

text \<open>
  Modelled from the spec: \<open>fragment_count(dim) = ceil(CubeShape[dim] / FragmentShape[dim])\<close>,
  computed on naturals.
\<close>

definition fragment_count :: "gvt \<Rightarrow> nat \<Rightarrow> nat" where
  "fragment_count g i =
     (coord (cube_shape g) i + coord (fragment_shape g) i - 1) div coord (fragment_shape g) i"

text \<open>
  Modelled from the spec: \<open>slice(dim, pin)\<close> enumerates the fragment ids whose region
  meets the hyperplane at global index \<open>pin\<close> along \<open>dim\<close>: the pinned component is
  \<open>pin / FragmentShape[dim]\<close>, every other component runs over
  \<open>0 .. fragment_count - 1\<close>, and the last axis varies fastest.
\<close>

definition axis_range :: "gvt \<Rightarrow> nat \<Rightarrow> nat \<Rightarrow> nat \<Rightarrow> nat list" where
  "axis_range g d pin i =
     (if i = d then [pin div coord (fragment_shape g) i] else [0..<fragment_count g i])"

definition slice :: "gvt \<Rightarrow> nat \<Rightarrow> nat \<Rightarrow> vec3 list" where
  "slice g d pin =
     concat (map (\<lambda>a. concat (map (\<lambda>b. map (\<lambda>c. (a, b, c)) (axis_range g d pin 2))
                                    (axis_range g d pin 1)))
                 (axis_range g d pin 0))"

text \<open>The total order on fragment ids: lexicographic, first component most significant.\<close>

fun lex_less :: "vec3 \<Rightarrow> vec3 \<Rightarrow> bool" where
  "lex_less (a, b, c) (a', b', c') =
     (a < a' \<or> (a = a' \<and> (b < b' \<or> (b = b' \<and> c < c'))))"

definition positive :: "vec3 \<Rightarrow> bool" where
  "positive s = (0 < coord s 0 \<and> 0 < coord s 1 \<and> 0 < coord s 2)"

definition in_range :: "gvt \<Rightarrow> vec3 \<Rightarrow> bool" where
  "in_range g p =
     (coord p 0 < coord (cube_shape g) 0 \<and> coord p 1 < coord (cube_shape g) 1 \<and> coord p 2 < coord (cube_shape g) 2)"

text \<open>
  A fragment id names a fragment of the cube when every component is below the number of
  fragments along its axis; the fragment \<open>fid\<close> covers the global indices
  \<open>fid[dim] * F[dim] .. (fid[dim] + 1) * F[dim] - 1\<close> along \<open>dim\<close>.
\<close>

definition valid_id :: "gvt \<Rightarrow> vec3 \<Rightarrow> bool" where
  "valid_id g fid =
     (coord fid 0 < fragment_count g 0 \<and> coord fid 1 < fragment_count g 1 \<and>
      coord fid 2 < fragment_count g 2)"

definition meets_pin :: "gvt \<Rightarrow> nat \<Rightarrow> nat \<Rightarrow> vec3 \<Rightarrow> bool" where
  "meets_pin g d pin fid =
     (coord fid d * coord (fragment_shape g) d \<le> pin \<and>
      pin < (coord fid d + 1) * coord (fragment_shape g) d)"

text \<open>The geometry of the slice tests in \<^verbatim>\<open>core/tests/geometry.cpp\<close>.\<close>

definition test_cube :: gvt where
  "test_cube = \<lparr>cube_shape = (9, 15, 23), fragment_shape = (3, 9, 5)\<rparr>"

section \<open>Planner\<close>

subsection \<open>Errors and machine integers\<close>

text \<open>
  The planner raises \<^verbatim>\<open>std::invalid_argument\<close> and \<^verbatim>\<open>std::runtime_error\<close>, each with
  its message; a failed \<^verbatim>\<open>assert\<close> aborts the process; \<open>AllocationFailed\<close> is the
  \<^verbatim>\<open>std::length_error\<close> or \<^verbatim>\<open>std::bad_alloc\<close> of a vector. \<open>Undefined\<close> marks the inputs on
  which the C++ has no defined behaviour (an index past the end of an array, a division
  by zero): the model stops there instead of computing a value.
\<close>

datatype error =
    InvalidArgument string
  | RuntimeError string
  | AssertionFailed string
  | AllocationFailed string
  | Undefined string

text \<open>
  \<^verbatim>\<open>int\<close> is a 32-bit two's complement word. Signed overflow, which C++ leaves undefined,
  wraps around, as the guard in \<^verbatim>\<open>task_count\<close> expects
  (``probably integer overflow''). \<^verbatim>\<open>/\<close> on \<^verbatim>\<open>int\<close> truncates towards zero.
\<close>

type_synonym cint = "32 word"

definition cdiv :: "cint \<Rightarrow> cint \<Rightarrow> cint" where
  "cdiv a b = word_of_int (sint a sdiv sint b)"

subsection \<open>Decimal formatting\<close>

text \<open>\<^verbatim>\<open>{}\<close> of fmt and \<^verbatim>\<open>%d\<close> of Go print an integer in decimal, with a leading minus sign.\<close>

definition digit_char :: "nat \<Rightarrow> char" where
  "digit_char n = char_of (48 + n)"

function decimal :: "nat \<Rightarrow> string" where
  "decimal n = (if n < 10 then [digit_char n] else decimal (n div 10) @ [digit_char (n mod 10)])"
  by pat_completeness auto
termination
  by (relation "measure (\<lambda>n. n)") auto

declare decimal.simps [simp del]

definition fmt_d :: "int \<Rightarrow> string" where
  "fmt_d k = (if k < 0 then CHR ''-'' # decimal (nat (- k)) else decimal (nat k))"

subsection \<open>Task count and partitioning\<close>

text \<open>
  \<^verbatim>\<open>task_count(jobs, task_size)\<close> of \<^verbatim>\<open>core/src/plan.cpp\<close>. The flag \<open>ndebug\<close> says
  whether the build defines \<^verbatim>\<open>NDEBUG\<close>, which removes the \<^verbatim>\<open>assert\<close>.
\<close>

definition task_count :: "bool \<Rightarrow> cint \<Rightarrow> cint \<Rightarrow> error + cint" where
  "task_count ndebug jobs task_size =
     (if task_size = 0 then Inl (Undefined ''division by zero'')
      else
        let x = cdiv (jobs + (task_size - 1)) task_size in
        if \<not> ndebug \<and> x = 0 then Inl (AssertionFailed ''x != 0'')
        else if x \<le>s 0 then Inl (RuntimeError ''task-count < 0; probably integer overflow'')
        else Inr x)"

text \<open>
  \<^verbatim>\<open>partition\<close> is a template over the output message; it needs a member \<^verbatim>\<open>ids\<close> and a
  method \<^verbatim>\<open>pack()\<close>. The message is a record with the field \<open>ids\<close>, every other
  field lives in the record's extension, and \<open>pack\<close> (declared in
  \<^verbatim>\<open>oneseismic/messages.hpp\<close>) is a parameter.
\<close>

record 'a fetch =
  ids :: "'a list"

text \<open>
  The loop of \<^verbatim>\<open>partition\<close>: \<open>rest\<close> is the range \<^verbatim>\<open>[fst, lst)\<close> of the copy of the ids,
  \<open>output\<close> is the message that is overwritten and packed in every round.
\<close>

fun partition_loop ::
  "(('a, 'b) fetch_scheme \<Rightarrow> 's) \<Rightarrow> nat \<Rightarrow> nat \<Rightarrow> 'a list \<Rightarrow> ('a, 'b) fetch_scheme \<Rightarrow> 's list" where
  "partition_loop pack 0 task_size rest output = []"
| "partition_loop pack (Suc n) task_size rest output =
     (let output' = output\<lparr>ids := take task_size rest\<rparr>
      in pack output' # partition_loop pack n task_size (drop task_size rest) output')"

definition partition_output ::
  "bool \<Rightarrow> (('a, 'b) fetch_scheme \<Rightarrow> 's) \<Rightarrow> ('a, 'b) fetch_scheme \<Rightarrow> cint \<Rightarrow> error + 's list" where
  "partition_output ndebug pack output task_size =
     (if task_size <s 1
      then Inl (InvalidArgument (''task_size (= '' @ fmt_d (sint task_size) @ '') < 1''))
      else
        case task_count ndebug (word_of_nat (length (ids output))) task_size of
          Inl e \<Rightarrow> Inl e
        | Inr ntasks \<Rightarrow>
            Inr (partition_loop pack (nat (sint ntasks)) (nat (sint task_size)) (ids output) output))"

text \<open>The messages that \<^verbatim>\<open>partition\<close> packs, before packing.\<close>

definition chunks :: "('a, 'b) fetch_scheme \<Rightarrow> nat \<Rightarrow> nat \<Rightarrow> ('a, 'b) fetch_scheme list" where
  "chunks output ntasks task_size = partition_loop (\<lambda>x. x) ntasks task_size (ids output) output"

text \<open>A packer for running \<^verbatim>\<open>partition\<close> on concrete messages: the ids, unchanged.\<close>

definition pack_ids :: "'a fetch \<Rightarrow> 'a list" where
  "pack_ids output = ids output"

subsection \<open>Manifest, geometry and the slice builder\<close>

text \<open>
  The manifest is a JSON document; the planner reads its key \<^verbatim>\<open>dimensions\<close>, an array
  with one array of line numbers per axis.
\<close>

record manifest =
  dimensions :: "int list list"

text \<open>
  \<^verbatim>\<open>geometry(dimensions, shape)\<close> of \<^verbatim>\<open>plan.cpp\<close>: the cube shape is the number of lines
  of each of the first three axes of \<open>dims\<close>, the fragment shape is the first three numbers of
  \<open>shape\<close>. Indexing a JSON array past its end is not defined.
\<close>

definition geometry :: "int list list \<Rightarrow> nat list \<Rightarrow> error + gvt" where
  "geometry dims shape =
     (if length dims < 3 \<or> length shape < 3 then Inl (Undefined ''index out of range'')
      else Inr \<lparr>cube_shape = (length (dims ! 0), length (dims ! 1), length (dims ! 2)),
                fragment_shape = (shape ! 0, shape ! 1, shape ! 2)\<rparr>)"

text \<open>
  The request and the output message of a slice, with the fields that \<^verbatim>\<open>plan.cpp\<close> reads
  and writes (the structs are declared in \<^verbatim>\<open>oneseismic/messages.hpp\<close>); \<open>common\<close> stands
  for every other field. \<^verbatim>\<open>one::slice_fetch(task)\<close> copies the request into an output with
  no ids and no cube shape yet.
\<close>

record 'c slice_task =
  dim :: nat
  lineno :: int
  shape :: "nat list"
  common :: 'c

record 'c slice_fetch = "int list fetch" +
  dim :: nat
  lineno :: int
  shape :: "nat list"
  shape_cube :: "nat list"
  common :: 'c

definition slice_fetch_of :: "'c slice_task \<Rightarrow> 'c slice_fetch" where
  "slice_fetch_of task =
     \<lparr>ids = [], dim = slice_task.dim task, lineno = slice_task.lineno task,
      shape = slice_task.shape task, shape_cube = [], common = slice_task.common task\<rparr>"

text \<open>\<^verbatim>\<open>std::find\<close> followed by \<^verbatim>\<open>std::distance\<close>: the position of the first occurrence.\<close>

fun find_pos :: "'a list \<Rightarrow> 'a \<Rightarrow> nat option" where
  "find_pos [] x = None"
| "find_pos (y # ys) x = (if y = x then Some 0 else map_option Suc (find_pos ys x))"

text \<open>
  The lambda \<^verbatim>\<open>to_vec\<close>. Its conversions \<^verbatim>\<open>int(x[i])\<close>, and the one that stores
  \<^verbatim>\<open>pin % fragment_shape[dim]\<close> in the \<^verbatim>\<open>int\<close> field \<^verbatim>\<open>lineno\<close>, are of numbers bounded by
  the lengths of the manifest's index arrays; they keep the value.
\<close>

definition to_vec :: "vec3 \<Rightarrow> int list" where
  "to_vec x = [int (coord x 0), int (coord x 1), int (coord x 2)]"

text \<open>
  \<^verbatim>\<open>schedule_maker< slice_task, slice_fetch >::build\<close>. The model stops where the C++ is
  not defined: on an axis number that does not index \<^verbatim>\<open>dimensions\<close> or is not one of
  the three axes of \<^verbatim>\<open>gvt< 3 >\<close>, and on a fragment shape with a zero, by which
  \<^verbatim>\<open>%\<close> and the kernel would divide.
\<close>

definition build_slice :: "'c slice_task \<Rightarrow> manifest \<Rightarrow> error + 'c slice_fetch" where
  "build_slice task manifest =
     (let out = slice_fetch_of task;
          manifest_dimensions = dimensions manifest
      in
      if \<not> slice_task.dim task < length manifest_dimensions
      then Inl (Undefined ''index out of range'')
      else
        case find_pos (manifest_dimensions ! slice_task.dim task) (slice_task.lineno task) of
          None \<Rightarrow>
            Inl (InvalidArgument
                  (''line (= '' @ fmt_d (slice_task.lineno task) @ '') not found in index''))
        | Some pin \<Rightarrow>
            (case geometry manifest_dimensions (slice_task.shape task) of
               Inl e \<Rightarrow> Inl e
             | Inr gvt \<Rightarrow>
                 if \<not> positive (fragment_shape gvt) \<or> \<not> slice_task.dim task < 3
                 then Inl (Undefined ''division by zero or no such axis'')
                 else
                   let out = out\<lparr>shape_cube := shape_cube out @ map length manifest_dimensions\<rparr>;
                       out = out\<lparr>lineno :=
                                  int (pin mod coord (fragment_shape gvt) (slice_task.dim task))\<rparr>
                   in Inr (out\<lparr>ids := ids out @
                                       map to_vec (slice gvt (slice_task.dim task) pin)\<rparr>)))"

subsection \<open>The curtain builder\<close>

text \<open>
  One entry of the curtain output: a fragment id and the local \<open>(x, y)\<close> pairs to read from
  that fragment (\<^verbatim>\<open>one::single\<close>). The request carries the parallel coordinate arrays;
  the coordinates are positions in the cube, hence naturals, and \<^verbatim>\<open>std::size_t(dim0s[i])\<close>
  keeps their value.
\<close>

record single =
  single_id :: "nat list"
  coordinates :: "(int \<times> int) list"

record 'c curtain_task =
  dim0s :: "nat list"
  dim1s :: "nat list"
  shape :: "nat list"
  common :: 'c

record 'c curtain_fetch = "single fetch" +
  shape :: "nat list"
  common :: 'c

definition curtain_fetch_of :: "'c curtain_task \<Rightarrow> 'c curtain_fetch" where
  "curtain_fetch_of task =
     \<lparr>ids = [], shape = curtain_task.shape task, common = curtain_task.common task\<rparr>"

text \<open>\<^verbatim>\<open>std::lexicographical_compare\<close> with \<^verbatim>\<open><\<close>, and \<^verbatim>\<open>std::equal\<close> over the first range.\<close>

fun lexicographical_compare :: "nat list \<Rightarrow> nat list \<Rightarrow> bool" where
  "lexicographical_compare [] [] = False"
| "lexicographical_compare [] (y # ys) = True"
| "lexicographical_compare (x # xs) [] = False"
| "lexicographical_compare (x # xs) (y # ys) =
     (if x < y then True else if y < x then False else lexicographical_compare xs ys)"

definition to_list :: "vec3 \<Rightarrow> nat list" where
  "to_list x = [coord x 0, coord x 1, coord x 2]"

definition less_id :: "single \<Rightarrow> vec3 \<Rightarrow> bool" where
  "less_id lhs rhs = lexicographical_compare (single_id lhs) (to_list rhs)"

definition equal_id :: "nat list \<Rightarrow> vec3 \<Rightarrow> bool" where
  "equal_id lhs rhs = (lhs = take (length lhs) (to_list rhs))"

text \<open>
  \<^verbatim>\<open>std::lower_bound(ids.begin(), ids.end(), fid, less)\<close>, as a position: the end of the
  longest prefix whose entries are all less than \<open>fid\<close>, which is what the algorithm
  returns on a range partitioned by \<open>less\<close>.
\<close>

definition lower_bound :: "single list \<Rightarrow> vec3 \<Rightarrow> nat" where
  "lower_bound xs fid = length (takeWhile (\<lambda>e. less_id e fid) xs)"

text \<open>
  \<^verbatim>\<open>int(std::max(fragment_shape[0], fragment_shape[1]) * 1.2)\<close>, the capacity reserved for
  the coordinates of a new entry. The product is a \<^verbatim>\<open>double\<close>; truncated, it is
  \<open>max * 6 div 5\<close>, and the rounding of the product never moves it across \<open>2 ^ 31\<close>. The
  capacity has no effect on the output. When the number does not fit an \<^verbatim>\<open>int\<close>, the
  \<^verbatim>\<open>int\<close> that the conversion gives is not the number, and \<^verbatim>\<open>reserve\<close>, which takes it as
  a \<^verbatim>\<open>std::size_t\<close>, throws. Memory that runs out for a capacity that fits is not
  modelled, as for every other allocation.
\<close>

definition approx_coordinates_per_fragment :: "gvt \<Rightarrow> nat" where
  "approx_coordinates_per_fragment gvt =
     max (coord (fragment_shape gvt) 0) (coord (fragment_shape gvt) 1) * 6 div 5"

definition reserve :: "nat \<Rightarrow> 'a list \<Rightarrow> error + 'a list" where
  "reserve n v =
     (if int n < 2 ^ 31 then Inr v else Inl (AllocationFailed ''vector::reserve''))"

text \<open>
  One round of the first loop: if the column of \<open>(x, y)\<close> has no entry yet, make \<open>top\<close>,
  reserve its coordinates, insert \<open>zfrags\<close> copies of it at the lower bound and number
  their third component.
\<close>

definition allocate ::
  "gvt \<Rightarrow> nat \<Rightarrow> nat \<Rightarrow> single list \<Rightarrow> nat \<times> nat \<Rightarrow> error + single list" where
  "allocate gvt zfrags approx bins xy =
     (let top_point = (fst xy, snd xy, 0);
          fid = frag_id gvt top_point;
          itr = lower_bound bins fid
      in
      if itr = length bins \<or> \<not> equal_id (single_id (bins ! itr)) fid
      then
        (case reserve approx [] of
           Inl e \<Rightarrow> Inl e
         | Inr reserved \<Rightarrow>
             let top = \<lparr>single_id = to_list fid, coordinates = reserved\<rparr>
             in Inr (take itr bins @
                     map (\<lambda>z. top\<lparr>single_id := (single_id top)[2 := z]\<rparr>) [0..<zfrags] @
                     drop itr bins))
      else Inr bins)"

fun allocate_all ::
  "gvt \<Rightarrow> nat \<Rightarrow> nat \<Rightarrow> single list \<Rightarrow> (nat \<times> nat) list \<Rightarrow> error + single list" where
  "allocate_all gvt zfrags approx bins [] = Inr bins"
| "allocate_all gvt zfrags approx bins (xy # xys) =
     (case allocate gvt zfrags approx bins xy of
        Inl e \<Rightarrow> Inl e
      | Inr bins' \<Rightarrow> allocate_all gvt zfrags approx bins' xys)"

text \<open>
  One round of the second loop: append the local pair to the \<open>zfrags\<close> entries from the
  lower bound on. Stepping an iterator past the end is not defined. The conversions
  \<^verbatim>\<open>int(lid[i])\<close> are of numbers below the fragment shape; they keep the value.
\<close>

definition put_coordinates ::
  "gvt \<Rightarrow> nat \<Rightarrow> single list \<Rightarrow> nat \<times> nat \<Rightarrow> error + single list" where
  "put_coordinates gvt zfrags bins xy =
     (let cp = (fst xy, snd xy, 0);
          fid = frag_id gvt cp;
          lid = to_local gvt cp;
          itr = lower_bound bins fid
      in
      if length bins < itr + zfrags then Inl (Undefined ''iterator past the end'')
      else
        Inr (take itr bins @
             map (\<lambda>task. task\<lparr>coordinates :=
                           coordinates task @ [(int (coord lid 0), int (coord lid 1))]\<rparr>)
                 (take zfrags (drop itr bins)) @
             drop (itr + zfrags) bins))"

fun put_all :: "gvt \<Rightarrow> nat \<Rightarrow> single list \<Rightarrow> (nat \<times> nat) list \<Rightarrow> error + single list" where
  "put_all gvt zfrags bins [] = Inr bins"
| "put_all gvt zfrags bins (xy # xys) =
     (case put_coordinates gvt zfrags bins xy of
        Inl e \<Rightarrow> Inl e
      | Inr bins' \<Rightarrow> put_all gvt zfrags bins' xys)"

text \<open>
  \<^verbatim>\<open>schedule_maker< curtain_task, curtain_fetch >::build\<close>. Both loops run over the
  indices of \<^verbatim>\<open>dim0s\<close> and read \<^verbatim>\<open>dim1s\<close> at the same index, which is not defined when
  \<^verbatim>\<open>dim1s\<close> is shorter; the kernel divides by every component of the fragment shape.
\<close>

definition build_curtain :: "'c curtain_task \<Rightarrow> manifest \<Rightarrow> error + 'c curtain_fetch" where
  "build_curtain task manifest =
     (let out = curtain_fetch_of task in
      case geometry (dimensions manifest) (curtain_task.shape task) of
        Inl e \<Rightarrow> Inl e
      | Inr gvt \<Rightarrow>
          if \<not> positive (fragment_shape gvt) then Inl (Undefined ''division by zero'')
          else if length (dim1s task) < length (dim0s task)
          then Inl (Undefined ''index out of range'')
          else
            let zfrags = fragment_count gvt 2;
                approx = approx_coordinates_per_fragment gvt;
                xys = zip (dim0s task) (dim1s task)
            in case allocate_all gvt zfrags approx (ids out) xys of
                 Inl e \<Rightarrow> Inl e
               | Inr allocated \<Rightarrow>
                   (case put_all gvt zfrags allocated xys of
                      Inl e \<Rightarrow> Inl e
                    | Inr filled \<Rightarrow> Inr (out\<lparr>ids := filled\<rparr>)))"

subsection \<open>Columns of the curtain output\<close>

text \<open>
  The words of the curtain claim, as definitions: the column of an input pair is the
  \<open>(x, y)\<close> part of its fragment id, its local pair is \<open>(x mod F[0], y mod F[1])\<close>, and the
  stack of a column has one entry per fragment along axis 2, numbered \<open>0 .. zfrags - 1\<close>,
  each with the local pairs of the input pairs of that column, in input order.
\<close>

definition column :: "gvt \<Rightarrow> nat \<times> nat \<Rightarrow> nat \<times> nat" where
  "column g xy = (fst xy div coord (fragment_shape g) 0, snd xy div coord (fragment_shape g) 1)"

definition local_xy :: "gvt \<Rightarrow> nat \<times> nat \<Rightarrow> int \<times> int" where
  "local_xy g xy =
     (int (fst xy mod coord (fragment_shape g) 0), int (snd xy mod coord (fragment_shape g) 1))"

definition column_stack :: "gvt \<Rightarrow> (nat \<times> nat) list \<Rightarrow> nat \<times> nat \<Rightarrow> single list" where
  "column_stack g xys xy =
     map (\<lambda>z. \<lparr>single_id = [fst (column g xy), snd (column g xy), z],
                coordinates = map (local_xy g) (filter (\<lambda>p. column g p = column g xy) xys)\<rparr>)
         [0..<fragment_count g 2]"

text \<open>
  For the proofs, \<open>insert_stack\<close> is what a round of the first loop does to the list when
  \<^verbatim>\<open>reserve\<close> does not throw, and the output list is read as a list of bins, one per
  column: the column and the local pairs collected so far. \<open>ins\<close> and \<open>app\<close> are what one
  round of the first and of the second loop do to the bins.
\<close>

definition insert_stack :: "gvt \<Rightarrow> nat \<Rightarrow> single list \<Rightarrow> nat \<times> nat \<Rightarrow> single list" where
  "insert_stack gvt zfrags bins xy =
     (let fid = frag_id gvt (fst xy, snd xy, 0);
          itr = lower_bound bins fid
      in
      if itr = length bins \<or> \<not> equal_id (single_id (bins ! itr)) fid
      then take itr bins @
           map (\<lambda>z. \<lparr>single_id = (to_list fid)[2 := z], coordinates = []\<rparr>) [0..<zfrags] @
           drop itr bins
      else bins)"

type_synonym bin = "(nat \<times> nat) \<times> (int \<times> int) list"

definition column_less :: "nat \<times> nat \<Rightarrow> nat \<times> nat \<Rightarrow> bool" where
  "column_less k k' = (fst k < fst k' \<or> (fst k = fst k' \<and> snd k < snd k'))"

definition stack :: "nat \<Rightarrow> bin \<Rightarrow> single list" where
  "stack zf c =
     map (\<lambda>z. \<lparr>single_id = [fst (fst c), snd (fst c), z], coordinates = snd c\<rparr>) [0..<zf]"

definition expand :: "nat \<Rightarrow> bin list \<Rightarrow> single list" where
  "expand zf cs = concat (map (stack zf) cs)"

fun ins :: "nat \<times> nat \<Rightarrow> bin list \<Rightarrow> bin list" where
  "ins k [] = [(k, [])]"
| "ins k (c # cs) =
     (if column_less (fst c) k then c # ins k cs
      else if fst c = k then c # cs
      else (k, []) # c # cs)"

fun app :: "nat \<times> nat \<Rightarrow> int \<times> int \<Rightarrow> bin list \<Rightarrow> bin list option" where
  "app k l [] = None"
| "app k l (c # cs) =
     (if column_less (fst c) k then map_option ((#) c) (app k l cs)
      else Some ((fst c, snd c @ [l]) # cs))"


definition fill :: "gvt \<Rightarrow> (nat \<times> nat) list \<Rightarrow> bin list \<Rightarrow> bin list" where
  "fill g xys cs =
     map (\<lambda>c. (fst c, snd c @ map (local_xy g) (filter (\<lambda>p. column g p = fst c) xys))) cs"


section \<open>Result broker\<close>

subsection \<open>Process header, store and responses\<close>

text \<open>
  \<^verbatim>\<open>api/api/endpoint.go\<close>. Byte slices and strings are lists of characters (bytes). The
  messages of package \<^verbatim>\<open>message\<close> keep their Go field names; their codec (\<^verbatim>\<open>Unpack\<close>,
  \<^verbatim>\<open>Pack\<close>) is not among the sources and is a parameter of the handlers.
\<close>

type_synonym bytes = string

record ProcessHeader =
  Ntasks :: int
  Shape :: "int list"
  Index :: "int list list"

record ResultHeader =
  Bundles :: int
  Shape :: "int list"
  Index :: "int list list"

definition headerkey :: "string \<Rightarrow> string" where
  "headerkey pid = pid @ ''/header.json''"

definition parseProcessHeader ::
  "(bytes \<Rightarrow> string + ProcessHeader) \<Rightarrow> bytes \<Rightarrow> string + ProcessHeader" where
  "parseProcessHeader Unpack doc =
     (case Unpack doc of
        Inl err \<Rightarrow> Inl (''unable to parse process header: '' @ err)
      | Inr ph \<Rightarrow>
          if Ntasks ph \<le> 0
          then Inl (''processheader.parts = '' @ fmt_d (Ntasks ph) @ ''; want >= 1'')
          else Inr ph)"

definition resultFromProcessHeader :: "ProcessHeader \<Rightarrow> ResultHeader" where
  "resultFromProcessHeader head =
     \<lparr>Bundles = Ntasks head, Shape = ProcessHeader.Shape head, Index = ProcessHeader.Index head\<rparr>"

text \<open>
  The store, as the handlers use it: \<^verbatim>\<open>Get\<close> of a key gives the bytes, the error
  \<^verbatim>\<open>redis.Nil\<close> when the key does not exist, or another error; \<^verbatim>\<open>XLen\<close> gives a count
  or an error; the successive \<^verbatim>\<open>XRead\<close> calls on a stream give its messages or an
  error, and a call beyond the last scripted reply blocks for ever. A message carries its
  id and its values in the order in which the range loop visits them; a value is a string
  or something else.
\<close>

datatype 'a reply = Nil | Err string | Ok 'a

datatype rvalue = Str string | NotStr

record XMessage =
  ID :: string
  Values :: "(string \<times> rvalue) list"

datatype xreply = XErr string | XReply "XMessage list"

record storage =
  Get :: "string \<Rightarrow> bytes reply"
  XLen :: "string \<Rightarrow> string + int"
  XRead :: "string \<Rightarrow> xreply list"

text \<open>
  What a handler answers: \<^verbatim>\<open>AbortWithStatus\<close> with the headers set before it,
  \<^verbatim>\<open>ctx.JSON\<close> with the fields of the object, or \<^verbatim>\<open>ctx.Data\<close> with content type and body.
\<close>

datatype response =
    Abort nat "(string \<times> string) list"
  | JSON nat "(string \<times> string) list"
  | Data nat string bytes

subsection \<open>Status\<close>

definition Status ::
  "(bytes \<Rightarrow> string + ProcessHeader) \<Rightarrow> storage \<Rightarrow> string \<Rightarrow> response" where
  "Status Unpack r pid =
     (case Get r (headerkey pid) of
        Nil \<Rightarrow>
          JSON 202 [(''location'', ''result/'' @ pid @ ''/status''), (''status'', ''pending'')]
      | Err e \<Rightarrow> Abort 500 []
      | Ok body \<Rightarrow>
          (case parseProcessHeader Unpack body of
             Inl e \<Rightarrow> Abort 500 []
           | Inr proc \<Rightarrow>
               (case XLen r pid of
                  Inl e \<Rightarrow> Abort 500 []
                | Inr count \<Rightarrow>
                    let done = (count = Ntasks proc);
                        completed = fmt_d count @ ''/'' @ fmt_d (Ntasks proc)
                    in
                    if done
                    then JSON 200 [(''location'', ''result/'' @ pid), (''status'', ''finished''),
                                   (''progress'', completed)]
                    else JSON 202 [(''location'', ''result/'' @ pid @ ''/status''),
                                   (''status'', ''working''), (''progress'', completed)])))"

subsection \<open>The producer\<close>

text \<open>
  \<^verbatim>\<open>collectResult\<close> runs as a goroutine and talks to the handler over the channels
  \<^verbatim>\<open>tiles\<close> and \<^verbatim>\<open>failure\<close>. It is modelled by what it sends, in order, and by how it
  ends: it returns, which closes \<^verbatim>\<open>tiles\<close>; it blocks for ever in \<^verbatim>\<open>XRead\<close>; or the
  unchecked type assertion of an \<^verbatim>\<open>error\<close> value panics.
\<close>

datatype event = Tile bytes | Failure string

datatype ending = Closed | Blocked | Panicked

text \<open>
  The loop over the values of one message: the events sent, the new count, and the
  ending if the producer stops inside the loop.
\<close>

fun values_loop :: "(string \<times> rvalue) list \<Rightarrow> int \<Rightarrow> event list \<times> int \<times> ending option" where
  "values_loop [] count = ([], count, None)"
| "values_loop ((key, tile) # kvs) count =
     (if key = ''error''
      then (case tile of
              Str text \<Rightarrow> ([Failure text], count, Some Closed)
            | NotStr \<Rightarrow> ([], count, Some Panicked))
      else (case tile of
              NotStr \<Rightarrow> ([Failure ''tile.type = <type>; expected []byte]''], count, Some Closed)
            | Str chunk \<Rightarrow>
                (case values_loop kvs (count + 1) of
                   (evs, count', stop) \<Rightarrow> (Tile chunk # evs, count', stop))))"

fun messages_loop :: "XMessage list \<Rightarrow> int \<Rightarrow> event list \<times> int \<times> ending option" where
  "messages_loop [] count = ([], count, None)"
| "messages_loop (m # ms) count =
     (case values_loop (Values m) count of
        (evs, count', Some e) \<Rightarrow> (evs, count', Some e)
      | (evs, count', None) \<Rightarrow>
          (case messages_loop ms count' of
             (evs', count'', stop) \<Rightarrow> (evs @ evs', count'', stop)))"

text \<open>The loop \<^verbatim>\<open>for count < head.Ntasks\<close> over the replies of the successive reads.\<close>

fun read_loop :: "int \<Rightarrow> int \<Rightarrow> xreply list \<Rightarrow> event list \<times> ending" where
  "read_loop ntasks count [] = (if count < ntasks then ([], Blocked) else ([], Closed))"
| "read_loop ntasks count (XErr e # replies) =
     (if count < ntasks then ([Failure e], Closed) else ([], Closed))"
| "read_loop ntasks count (XReply ms # replies) =
     (if count < ntasks
      then (case messages_loop ms count of
              (evs, count', Some e) \<Rightarrow> (evs, e)
            | (evs, count', None) \<Rightarrow>
                (case read_loop ntasks count' replies of (evs', e) \<Rightarrow> (evs @ evs', e)))
      else ([], Closed))"

definition collectResult ::
  "(ResultHeader \<Rightarrow> string + bytes) \<Rightarrow> storage \<Rightarrow> string \<Rightarrow> ProcessHeader \<Rightarrow> event list \<times> ending" where
  "collectResult Pack r pid head =
     (case Pack (resultFromProcessHeader head) of
        Inl err \<Rightarrow> ([Failure err], Closed)
      | Inr rhpacked \<Rightarrow>
          (case read_loop (Ntasks head) 0 (XRead r pid) of
             (evs, e) \<Rightarrow> (Tile rhpacked # evs, e)))"

subsection \<open>Get and Stream\<close>



text \<open>
  \<^verbatim>\<open>%010d\<close>: decimal, padded with zeros to at least ten characters, the sign first.
\<close>

definition sprintf_010d :: "int \<Rightarrow> string" where
  "sprintf_010d k =
     (if k < 0
      then CHR ''-'' # replicate (9 - length (decimal (nat (- k)))) CHR ''0'' @ decimal (nat (- k))
      else replicate (10 - length (decimal (nat k))) CHR ''0'' @ decimal (nat k))"

text \<open>The bytes of one \<^verbatim>\<open>w.Write\<close> of \<^verbatim>\<open>Stream\<close>, and the writes of its loop.\<close>

definition stream_frame :: "bytes \<Rightarrow> bytes" where
  "stream_frame output = sprintf_010d (10 + int (length output)) @ output"

fun stream_loop :: "event list \<Rightarrow> bytes list" where
  "stream_loop [] = []"
| "stream_loop (Tile output # evs) = stream_frame output # stream_loop evs"
| "stream_loop (Failure err # evs) = []"

definition Result_Stream ::
  "(bytes \<Rightarrow> string + ProcessHeader) \<Rightarrow> (ResultHeader \<Rightarrow> string + bytes) \<Rightarrow>
   storage \<Rightarrow> string \<Rightarrow> response + bytes list" where
  "Result_Stream Unpack Pack r pid =
     (case Get r (headerkey pid) of
        Nil \<Rightarrow> Inl (Abort 404 [])
      | Err e \<Rightarrow> Inl (Abort 404 [])
      | Ok body \<Rightarrow>
          (case parseProcessHeader Unpack body of
             Inl e \<Rightarrow> Inl (Abort 500 [])
           | Inr head \<Rightarrow> Inr (stream_loop (fst (collectResult Pack r pid head)))))"

text \<open>The value that a decimal string denotes, to read a length prefix back.\<close>

definition digit_value :: "char \<Rightarrow> nat" where
  "digit_value c = of_char c - 48"

definition decimal_value :: "string \<Rightarrow> nat" where
  "decimal_value ds = foldl (\<lambda>n c. 10 * n + digit_value c) 0 ds"

definition is_digit :: "char \<Rightarrow> bool" where
  "is_digit c = (48 \<le> (of_char c :: nat) \<and> (of_char c :: nat) \<le> 57)"

subsection \<open>A store to run the handlers on\<close>

text \<open>
  A codec and a store for concrete runs: the header document \<open>n4\<close> unpacks to a process
  of four tasks, \<open>n1\<close> to one of a single task, \<open>n0\<close> to one of no task, anything else
  fails to unpack; a result
  header packs to \<open>H\<close> and its number of bundles. The store holds one process, \<open>p\<close>.
\<close>

definition example_unpack :: "bytes \<Rightarrow> string + ProcessHeader" where
  "example_unpack doc =
     (if doc = ''n4'' then Inr \<lparr>Ntasks = 4, Shape = [], Index = []\<rparr>
      else if doc = ''n1'' then Inr \<lparr>Ntasks = 1, Shape = [], Index = []\<rparr>
      else if doc = ''n0'' then Inr \<lparr>Ntasks = 0, Shape = [], Index = []\<rparr>
      else Inl ''EOF'')"


definition example_store :: "bytes reply \<Rightarrow> int \<Rightarrow> xreply list \<Rightarrow> storage" where
  "example_store header entries replies =
     \<lparr>Get = (\<lambda>key. if key = ''p/header.json'' then header else Nil),
      XLen = (\<lambda>key. Inr (if key = ''p'' then entries else 0)),
      XRead = (\<lambda>key. if key = ''p'' then replies else [])\<rparr>"


section \<open>Keyring\<close>

text \<open>
  \<^verbatim>\<open>api/internal/auth/auth.go\<close>. The keyring signs and parses tokens with the library
  \<^verbatim>\<open>jwt-go\<close>, which is not part of the repository: its two operations are the fields of a
  record, and what the keyring relies on is stated as \<open>jwt_contract\<close>. A token string is
  a value of the type \<open>'tok\<close>, its encoding being the library's business. Time is in
  seconds since the epoch, as \<^verbatim>\<open>Unix()\<close> gives it, and the clock is an argument.
\<close>

datatype claim = CString string | CNumber int

datatype claims = MapClaims "(string \<times> claim) list" | OtherClaims

record Token =
  Claims :: claims
  Valid :: bool

text \<open>
  \<open>SignedString key claims\<close> is \<^verbatim>\<open>jwt.NewWithClaims(jwt.SigningMethodHS256,
  claims).SignedString(key)\<close>; \<open>Parse now tokenstr key\<close> is \<^verbatim>\<open>jwt.Parse(tokenstr, keyfunc)\<close>
  at the time \<open>now\<close>, with a \<^verbatim>\<open>keyfunc\<close> that returns \<open>key\<close>.
\<close>

record 'tok jwt =
  SignedString :: "bytes \<Rightarrow> (string \<times> claim) list \<Rightarrow> string + 'tok"
  Parse :: "int \<Rightarrow> 'tok \<Rightarrow> bytes \<Rightarrow> string + Token"

definition SignWithTimeout :: "'tok jwt \<Rightarrow> bytes \<Rightarrow> string \<Rightarrow> int \<Rightarrow> string + 'tok" where
  "SignWithTimeout lib key pid exp =
     SignedString lib key [(''pid'', CString pid), (''exp'', CNumber exp)]"

definition Sign :: "'tok jwt \<Rightarrow> bytes \<Rightarrow> int \<Rightarrow> string \<Rightarrow> string + 'tok" where
  "Sign lib key now pid = (let expiration = now + 5 * 60 in SignWithTimeout lib key pid expiration)"

text \<open>\<^verbatim>\<open>%v\<close> of the value of a claim, \<^verbatim>\<open>nil\<close> when the claim is missing.\<close>

definition show_claim :: "claim option \<Rightarrow> string" where
  "show_claim c =
     (case c of None \<Rightarrow> ''<nil>'' | Some (CString text) \<Rightarrow> text | Some (CNumber n) \<Rightarrow> fmt_d n)"

text \<open>\<^verbatim>\<open>Validate\<close> returns an error, \<open>None\<close> being \<^verbatim>\<open>nil\<close>.\<close>

definition Validate :: "'tok jwt \<Rightarrow> bytes \<Rightarrow> int \<Rightarrow> 'tok \<Rightarrow> string \<Rightarrow> string option" where
  "Validate lib key now tokenstr pid =
     (case Parse lib now tokenstr key of
        Inl err \<Rightarrow> Some err
      | Inr token \<Rightarrow>
          if Valid token
          then (case Claims token of
                  OtherClaims \<Rightarrow> Some ''expected 'claims' of type jwt.MapClaims; was <nil>''
                | MapClaims m \<Rightarrow>
                    let tokenpid = map_of m ''pid'' in
                    if tokenpid = Some (CString pid) then None
                    else Some (''token with invalid pid; got '' @ show_claim tokenpid))
          else Some ''Keyring.Validate fell through; This is a logic error'')"

text \<open>
  What the keyring relies on: signing with a byte key succeeds, and parsing a token with
  the key that signed it gives back its claims, valid, unless the time is past its
  \<open>exp\<close> claim, in which case parsing fails.
\<close>

definition jwt_contract :: "'tok jwt \<Rightarrow> bool" where
  "jwt_contract lib =
     (\<forall>key m. \<exists>tok. SignedString lib key m = Inr tok \<and>
        (\<forall>now. Parse lib now tok key =
           (case map_of m ''exp'' of
              Some (CNumber exp) \<Rightarrow>
                if now \<le> exp then Inr \<lparr>Claims = MapClaims m, Valid = True\<rparr>
                else Inl ''Token is expired''
            | _ \<Rightarrow> Inr \<lparr>Claims = MapClaims m, Valid = True\<rparr>)))"

text \<open>A stand-in for the library, to run the keyring: the token is the key and the claims.\<close>

definition toy_parse :: "int \<Rightarrow> bytes \<times> (string \<times> claim) list \<Rightarrow> bytes \<Rightarrow> string + Token" where
  "toy_parse now tok key =
     (if fst tok \<noteq> key then Inl ''signature is invalid''
      else case map_of (snd tok) ''exp'' of
             Some (CNumber exp) \<Rightarrow>
               if now \<le> exp then Inr \<lparr>Claims = MapClaims (snd tok), Valid = True\<rparr>
               else Inl ''Token is expired''
           | _ \<Rightarrow> Inr \<lparr>Claims = MapClaims (snd tok), Valid = True\<rparr>)"

definition toy_signed_string ::
  "bytes \<Rightarrow> (string \<times> claim) list \<Rightarrow> string + bytes \<times> (string \<times> claim) list" where
  "toy_signed_string key m = Inr (key, m)"

definition toy_jwt :: "(bytes \<times> (string \<times> claim) list) jwt" where
  "toy_jwt = \<lparr>SignedString = toy_signed_string, Parse = toy_parse\<rparr>"

section \<open>Verified properties\<close>

subsection \<open>Geometry: ceiling division and slice enumeration\<close>

lemma ceil_div_upper: "0 < f \<Longrightarrow> (c::nat) \<le> ((c + f - 1) div f) * f"
proof -
  assume f: "0 < f"
  have "c + f - 1 = ((c + f - 1) div f) * f + (c + f - 1) mod f" by simp
  moreover have "(c + f - 1) mod f < f" using f by simp
  ultimately show ?thesis using f by linarith
qed

lemma ceil_div_least: "0 < f \<Longrightarrow> (c::nat) \<le> n * f \<Longrightarrow> (c + f - 1) div f \<le> n"
proof -
  assume f: "0 < f" and c: "c \<le> n * f"
  have "c + f - 1 < (n + 1) * f" using f c by simp
  then have "(c + f - 1) div f < n + 1"
    using f by (simp add: less_mult_imp_div_less)
  then show ?thesis by simp
qed

lemma sorted_wrt_concat_map:
  "sorted_wrt R xs \<Longrightarrow>
   (\<forall>x\<in>set xs. sorted_wrt P (f x)) \<Longrightarrow>
   (\<forall>x\<in>set xs. \<forall>y\<in>set xs. R x y \<longrightarrow> (\<forall>u\<in>set (f x). \<forall>v\<in>set (f y). P u v)) \<Longrightarrow>
   sorted_wrt P (concat (map f xs))"
  by (induction xs) (auto simp: sorted_wrt_append)

lemma sorted_axis_range: "sorted_wrt (<) (axis_range g d pin i)"
  by (simp add: axis_range_def)

lemma sorted_row:
  "sorted_wrt (<) cs \<Longrightarrow> sorted_wrt lex_less (map (\<lambda>c. (a, b, c)) cs)"
  by (simp add: sorted_wrt_map)

lemma sorted_plane:
  "sorted_wrt (<) bs \<Longrightarrow> sorted_wrt (<) cs \<Longrightarrow>
   sorted_wrt lex_less (concat (map (\<lambda>b. map (\<lambda>c. (a, b, c)) cs) bs))"
  by (rule sorted_wrt_concat_map) (auto simp: sorted_row)

lemma sorted_product:
  "sorted_wrt (<) as \<Longrightarrow> sorted_wrt (<) bs \<Longrightarrow> sorted_wrt (<) cs \<Longrightarrow>
   sorted_wrt lex_less
     (concat (map (\<lambda>a. concat (map (\<lambda>b. map (\<lambda>c. (a, b, c)) cs) bs)) as))"
  by (rule sorted_wrt_concat_map) (auto simp: sorted_plane)

lemma sorted_slice: "sorted_wrt lex_less (slice g d pin)"
  unfolding slice_def by (intro sorted_product sorted_axis_range)

lemma set_slice: "set (slice g d pin) =
   {(a, b, c). a \<in> set (axis_range g d pin 0) \<and> b \<in> set (axis_range g d pin 1) \<and> c \<in> set (axis_range g d pin 2)}"
  by (auto simp: slice_def)

lemma length_slice: "length (slice g d pin) = length (axis_range g d pin 0) * length (axis_range g d pin 1) * length (axis_range g d pin 2)"
  by (simp add: slice_def length_concat o_def sum_list_triv)

lemma pinned: "d < 3 \<Longrightarrow> fid \<in> set (slice g d pin) \<Longrightarrow> coord fid d = pin div coord (fragment_shape g) d"
  by (cases fid) (auto simp: set_slice axis_range_def split: if_splits)

lemma length_slice_prod: "d < 3 \<Longrightarrow> length (slice g d pin) = prod_list (map (fragment_count g) (filter (\<lambda>i. i \<noteq> d) [0, 1, 2]))"
  by (auto simp: length_slice axis_range_def)

lemma pin_div_less_count:
  assumes "0 < f" "pin < (c::nat)"
  shows "pin div f < (c + f - 1) div f"
proof -
  have "pin div f * f \<le> pin" by simp
  also have "pin < c" by fact
  also have "c \<le> ((c + f - 1) div f) * f" using assms(1) by (rule ceil_div_upper)
  finally show ?thesis by simp
qed

lemma meets_iff:
  assumes "0 < (f::nat)"
  shows "(k * f \<le> pin \<and> pin < (k + 1) * f) \<longleftrightarrow> k = pin div f"
proof
  assume h: "k * f \<le> pin \<and> pin < (k + 1) * f"
  then have "k \<le> pin div f" using assms by (simp add: less_eq_div_iff_mult_less_eq)
  moreover have "pin div f < k + 1" using h assms by (simp add: less_mult_imp_div_less)
  ultimately show "k = pin div f" by simp
next
  assume "k = pin div f"
  then show "k * f \<le> pin \<and> pin < (k + 1) * f"
    using assms by (simp add: dividend_less_div_times)
qed

lemma fragment_count_upper:
  "0 < coord (fragment_shape g) i \<Longrightarrow>
   coord (cube_shape g) i \<le> fragment_count g i * coord (fragment_shape g) i"
  unfolding fragment_count_def by (rule ceil_div_upper)

lemma fragment_count_least:
  "0 < coord (fragment_shape g) i \<Longrightarrow> coord (cube_shape g) i \<le> n * coord (fragment_shape g) i \<Longrightarrow>
   fragment_count g i \<le> n"
  unfolding fragment_count_def by (rule ceil_div_least)

lemma frag_index_less_count:
  "0 < coord (fragment_shape g) i \<Longrightarrow> x < coord (cube_shape g) i \<Longrightarrow>
   x div coord (fragment_shape g) i < fragment_count g i"
  unfolding fragment_count_def by (rule pin_div_less_count)

lemma set_slice_meets:
  assumes "d < 3" "positive (fragment_shape g)" "pin < coord (cube_shape g) d"
  shows "set (slice g d pin) = {fid. valid_id g fid \<and> meets_pin g d pin fid}"
proof -
  have f: "0 < coord (fragment_shape g) d"
    using assms(1,2) by (cases "fragment_shape g") (auto simp: positive_def)
  have c: "pin div coord (fragment_shape g) d < fragment_count g d"
    using f assms(3) by (rule frag_index_less_count)
  have m: "\<And>fid. meets_pin g d pin fid \<longleftrightarrow> coord fid d = pin div coord (fragment_shape g) d"
    unfolding meets_pin_def using f by (rule meets_iff)
  have d: "d = 0 \<or> d = 1 \<or> d = 2" using assms(1) by arith
  show ?thesis
    using d c by (auto simp: set_slice m valid_id_def axis_range_def)
qed


lemma lt3: "(i::nat) < 3 \<longleftrightarrow> i = 0 \<or> i = 1 \<or> i = 2"
  by arith


text \<open>
  Claim C1. For every geometry with componentwise positive cube and fragment shape and
  every in-range point \<open>p\<close>, \<open>to_global (frag_id p) (to_local p) = p\<close>; \<open>to_local\<close> is
  componentwise \<open>p[i] mod FragmentShape[i]\<close> and \<open>frag_id\<close> is componentwise
  \<open>p[i] div FragmentShape[i]\<close>. No divisibility of the cube shape by the fragment shape is
  assumed; the local point lies inside the fragment and the id names a fragment of the cube.
\<close>

theorem roundtrip:
  assumes "positive (cube_shape g)" "positive (fragment_shape g)" "in_range g p"
  shows "to_global g (frag_id g p) (to_local g p) = p \<and>
         (\<forall>i<3. coord (to_local g p) i = coord p i mod coord (fragment_shape g) i) \<and>
         (\<forall>i<3. coord (frag_id g p) i = coord p i div coord (fragment_shape g) i) \<and>
         (\<forall>i<3. coord (to_local g p) i < coord (fragment_shape g) i) \<and>
         valid_id g (frag_id g p)"
proof -
  have rt: "to_global g (frag_id g p) (to_local g p) = p"
    by (cases p) (simp add: to_global_def frag_id_def to_local_def div_mult_mod_eq)
  have loc: "\<forall>i<3. coord (to_local g p) i = coord p i mod coord (fragment_shape g) i"
    by (simp add: lt3 to_local_def)
  have fid: "\<forall>i<3. coord (frag_id g p) i = coord p i div coord (fragment_shape g) i"
    by (simp add: lt3 frag_id_def)
  have pos: "\<forall>i<3. 0 < coord (fragment_shape g) i"
    using assms(2) by (simp add: lt3 positive_def)
  have bound: "\<forall>i<3. coord (to_local g p) i < coord (fragment_shape g) i"
    using loc pos by simp
  have rng: "\<forall>i<3. coord p i < coord (cube_shape g) i"
    using assms(3) by (simp add: lt3 in_range_def)
  have "\<forall>i<3. coord (frag_id g p) i < fragment_count g i"
    using fid pos rng by (simp add: frag_index_less_count)
  then have "valid_id g (frag_id g p)"
    by (simp add: valid_id_def)
  with rt loc fid bound show ?thesis by blast
qed

text \<open>
  The corner point of \<^verbatim>\<open>core/tests/geometry.cpp\<close>: cube \<open>(220, 200, 1000)\<close>, fragment
  \<open>(33, 20, 11)\<close> (220 is not a multiple of 33), point \<open>(98, 59, 54)\<close>.
\<close>

theorem roundtrip_witness:
  "positive (cube_shape \<lparr>cube_shape = (220, 200, 1000), fragment_shape = (33, 20, 11)\<rparr>) \<and>
   positive (fragment_shape \<lparr>cube_shape = (220, 200, 1000), fragment_shape = (33, 20, 11)\<rparr>) \<and>
   in_range \<lparr>cube_shape = (220, 200, 1000), fragment_shape = (33, 20, 11)\<rparr> (98, 59, 54) \<and>
   to_local \<lparr>cube_shape = (220, 200, 1000), fragment_shape = (33, 20, 11)\<rparr> (98, 59, 54) = (32, 19, 10) \<and>
   to_global \<lparr>cube_shape = (220, 200, 1000), fragment_shape = (33, 20, 11)\<rparr>
     (frag_id \<lparr>cube_shape = (220, 200, 1000), fragment_shape = (33, 20, 11)\<rparr> (98, 59, 54))
     (to_local \<lparr>cube_shape = (220, 200, 1000), fragment_shape = (33, 20, 11)\<rparr> (98, 59, 54)) = (98, 59, 54)"
proof -
  let ?g = "\<lparr>cube_shape = (220, 200, 1000), fragment_shape = (33, 20, 11)\<rparr>"
  have h1: "positive (cube_shape ?g)" by (simp add: positive_def)
  have h2: "positive (fragment_shape ?g)" by (simp add: positive_def)
  have h3: "in_range ?g (98, 59, 54)" by (simp add: in_range_def)
  have h4: "to_local ?g (98, 59, 54) = (32, 19, 10)" by (simp add: to_local_def)
  show ?thesis using h1 h2 h3 h4 roundtrip [OF h1 h2 h3] by simp
qed


text \<open>
  Claim C2. For every axis \<open>dim\<close> and in-range global \<open>pin\<close>, \<open>slice dim pin\<close> lists exactly
  the fragment ids that meet the pinned hyperplane, in strictly ascending lexicographic
  order; every id has component \<open>dim\<close> equal to \<open>pin div FragmentShape[dim]\<close>; the length
  is the product of \<open>fragment_count\<close> over the other two axes, where \<open>fragment_count i\<close> is
  the ceiling of \<open>CubeShape[i] / FragmentShape[i]\<close> (the least \<open>n\<close> with
  \<open>CubeShape[i] \<le> n * FragmentShape[i]\<close>). For cube \<open>(9, 15, 23)\<close> and fragment
  \<open>(3, 9, 5)\<close>, \<open>slice 0 0\<close> and \<open>slice 2 17\<close> are the lists of the tests.
\<close>

theorem slice_enumerates:
  assumes "d < 3" "positive (cube_shape g)" "positive (fragment_shape g)"
    and "pin < coord (cube_shape g) d"
  shows "sorted_wrt lex_less (slice g d pin) \<and>
         set (slice g d pin) = {fid. valid_id g fid \<and> meets_pin g d pin fid} \<and>
         (\<forall>fid \<in> set (slice g d pin). coord fid d = pin div coord (fragment_shape g) d) \<and>
         length (slice g d pin) =
           prod_list (map (fragment_count g) (filter (\<lambda>i. i \<noteq> d) [0, 1, 2])) \<and>
         (\<forall>i<3. coord (cube_shape g) i \<le> fragment_count g i * coord (fragment_shape g) i \<and>
                (\<forall>n. coord (cube_shape g) i \<le> n * coord (fragment_shape g) i \<longrightarrow> fragment_count g i \<le> n)) \<and>
         slice test_cube 0 0 =
           [(0, 0, 0), (0, 0, 1), (0, 0, 2), (0, 0, 3), (0, 0, 4),
            (0, 1, 0), (0, 1, 1), (0, 1, 2), (0, 1, 3), (0, 1, 4)] \<and>
         slice test_cube 2 17 = [(0, 0, 3), (0, 1, 3), (1, 0, 3), (1, 1, 3), (2, 0, 3), (2, 1, 3)]"
proof -
  have pos: "\<forall>i<3. 0 < coord (fragment_shape g) i"
    using assms(3) by (simp add: lt3 positive_def)
  have ceil: "\<forall>i<3. coord (cube_shape g) i \<le> fragment_count g i * coord (fragment_shape g) i \<and>
                (\<forall>n. coord (cube_shape g) i \<le> n * coord (fragment_shape g) i \<longrightarrow> fragment_count g i \<le> n)"
    using pos by (simp add: fragment_count_upper fragment_count_least)
  have pinned: "\<forall>fid \<in> set (slice g d pin). coord fid d = pin div coord (fragment_shape g) d"
    using assms(1) by (auto simp: pinned)
  have e1: "slice test_cube 0 0 =
           [(0, 0, 0), (0, 0, 1), (0, 0, 2), (0, 0, 3), (0, 0, 4),
            (0, 1, 0), (0, 1, 1), (0, 1, 2), (0, 1, 3), (0, 1, 4)]"
    by (simp add: slice_def test_cube_def axis_range_def fragment_count_def upt_conv_Cons)
  have e2: "slice test_cube 2 17 = [(0, 0, 3), (0, 1, 3), (1, 0, 3), (1, 1, 3), (2, 0, 3), (2, 1, 3)]"
    by (simp add: slice_def test_cube_def axis_range_def fragment_count_def upt_conv_Cons)
  show ?thesis
    using sorted_slice [of g d pin] set_slice_meets [OF assms(1,3,4)] pinned
      length_slice_prod [OF assms(1), of g pin] ceil e1 e2
    by blast
qed

text \<open>The crossline test of \<^verbatim>\<open>core/tests/geometry.cpp\<close>: \<open>slice 1 11\<close>.\<close>

theorem slice_enumerates_witness:
  "(1::nat) < 3 \<and> positive (cube_shape test_cube) \<and> positive (fragment_shape test_cube) \<and>
   11 < coord (cube_shape test_cube) 1 \<and>
   slice test_cube 1 11 =
     [(0, 1, 0), (0, 1, 1), (0, 1, 2), (0, 1, 3), (0, 1, 4),
      (1, 1, 0), (1, 1, 1), (1, 1, 2), (1, 1, 3), (1, 1, 4),
      (2, 1, 0), (2, 1, 1), (2, 1, 2), (2, 1, 3), (2, 1, 4)] \<and>
   sorted_wrt lex_less (slice test_cube 1 11) \<and>
   length (slice test_cube 1 11) = fragment_count test_cube 0 * fragment_count test_cube 2"
proof -
  have h1: "(1::nat) < 3" by simp
  have h2: "positive (cube_shape test_cube)" by (simp add: positive_def test_cube_def)
  have h3: "positive (fragment_shape test_cube)" by (simp add: positive_def test_cube_def)
  have h4: "11 < coord (cube_shape test_cube) 1" by (simp add: test_cube_def)
  have e: "slice test_cube 1 11 =
     [(0, 1, 0), (0, 1, 1), (0, 1, 2), (0, 1, 3), (0, 1, 4),
      (1, 1, 0), (1, 1, 1), (1, 1, 2), (1, 1, 3), (1, 1, 4),
      (2, 1, 0), (2, 1, 1), (2, 1, 2), (2, 1, 3), (2, 1, 4)]"
    by (simp add: slice_def test_cube_def axis_range_def fragment_count_def upt_conv_Cons)
  have "sorted_wrt lex_less (slice test_cube 1 11) \<and>
        length (slice test_cube 1 11) = fragment_count test_cube 0 * fragment_count test_cube 2"
    using slice_enumerates [OF h1 h2 h3 h4] by simp
  with h1 h2 h3 h4 e show ?thesis by blast
qed

subsection \<open>Planner: task count and partitioning\<close>

lemma sint_cint_of_int:
  "- (2 ^ 31) \<le> k \<Longrightarrow> k < 2 ^ 31 \<Longrightarrow> sint (word_of_int k :: cint) = k"
  by (simp add: sint_sbintrunc' signed_take_bit_int_eq_self)

lemma sdiv_nonneg: "0 \<le> a \<Longrightarrow> 0 < b \<Longrightarrow> (a::int) sdiv b = a div b"
  by (simp add: signed_divide_int_def sgn_if)

lemma cint_sum:
  "word_of_nat n + (ts - 1) = (word_of_int (int n + sint ts - 1) :: cint)"
  by simp

lemma task_count_value:
  assumes "1 \<le> sint ts" and "int n + sint ts - 1 < 2 ^ 31"
  shows "sint (cdiv (word_of_nat n + (ts - 1)) ts) = (int n + sint ts - 1) div sint ts"
proof -
  let ?s = "int n + sint ts - 1"
  have s0: "0 \<le> ?s" using assms(1) by simp
  have "sint (word_of_nat n + (ts - 1) :: cint) = ?s"
    unfolding cint_sum using s0 assms(2) by (intro sint_cint_of_int) simp_all
  then have d: "cdiv (word_of_nat n + (ts - 1)) ts = word_of_int (?s div sint ts)"
    using s0 assms(1) by (simp add: cdiv_def sdiv_nonneg)
  have q0: "0 \<le> ?s div sint ts" using s0 assms(1) by (simp add: pos_imp_zdiv_nonneg_iff)
  have "?s div sint ts \<le> ?s" using s0 assms(1)
    by (metis div_0 int_div_le_self linorder_not_less nle_le)
  then have "?s div sint ts < 2 ^ 31" using assms(2) by linarith
  then show ?thesis unfolding d using q0 by (intro sint_cint_of_int) simp_all
qed

lemma nat_ceil_div:
  assumes "1 \<le> (t::int)"
  shows "nat ((int n + t - 1) div t) = (n + nat t - 1) div nat t"
proof -
  define m where "m = nat t"
  have t: "t = int m" and m: "1 \<le> m" using assms by (simp_all add: m_def)
  have "int n + int m - 1 = int (n + m - 1)" using m by (simp add: of_nat_diff)
  then have "(int n + t - 1) div t = int ((n + m - 1) div m)"
    unfolding t by (simp only: zdiv_int)
  then show ?thesis by (simp add: m_def)
qed

lemma partition_loop_map:
  "partition_loop pack n t rest out = map pack (partition_loop (\<lambda>x. x) n t rest out)"
  by (induction n arbitrary: rest out) (simp_all add: Let_def)

lemma chunks_length: "length (partition_loop (\<lambda>x. x) n t rest out) = n"
  by (induction n arbitrary: rest out) (simp_all add: Let_def)

lemma chunks_more:
  "c \<in> set (partition_loop (\<lambda>x. x) n t rest out) \<Longrightarrow> fetch.more c = fetch.more out"
  by (induction n arbitrary: rest out) (auto simp: Let_def)

lemma chunks_concat:
  "concat (map ids (partition_loop (\<lambda>x. x) n t rest out)) = take (n * t) rest"
proof (induction n arbitrary: rest out)
  case 0
  then show ?case by simp
next
  case (Suc n)
  show ?case by (simp add: Let_def Suc.IH take_add)
qed

lemma chunks_nth:
  "i < n \<Longrightarrow> ids (partition_loop (\<lambda>x. x) n t rest out ! i) = take t (drop (i * t) rest)"
proof (induction n arbitrary: rest out i)
  case 0
  then show ?case by simp
next
  case (Suc n)
  show ?case
  proof (cases i)
    case 0
    then show ?thesis by (simp add: Let_def)
  next
    case (Suc j)
    then have "j < n" using Suc.prems by simp
    then show ?thesis using Suc by (simp add: Let_def Suc.IH add.commute)
  qed
qed

lemma one_le_div: "1 \<le> (t::int) \<Longrightarrow> t \<le> s \<Longrightarrow> 1 \<le> s div t"
  using int_one_le_iff_zero_less pos_imp_zdiv_pos_iff by blast

lemma task_count_ok:
  assumes "1 \<le> sint ts" and "int n + sint ts - 1 < 2 ^ 31" and "0 < n"
  shows "\<exists>x. task_count ndebug (word_of_nat n) ts = Inr x \<and>
             nat (sint x) = (n + nat (sint ts) - 1) div nat (sint ts)"
proof -
  let ?x = "cdiv (word_of_nat n + (ts - 1)) ts"
  have v: "sint ?x = (int n + sint ts - 1) div sint ts"
    using assms(1,2) by (rule task_count_value)
  have "sint ts \<le> int n + sint ts - 1" using assms(3) by simp
  then have "1 \<le> (int n + sint ts - 1) div sint ts"
    using assms(1) by (intro one_le_div)
  then have p: "0 < sint ?x" using v by simp
  then have nz: "?x \<noteq> 0" by auto
  have ns: "\<not> ?x \<le>s 0" using p by (simp add: word_sle_eq)
  have tz: "ts \<noteq> 0" using assms(1) by auto
  have "task_count ndebug (word_of_nat n) ts = Inr ?x"
    using nz ns tz by (simp add: task_count_def Let_def)
  moreover have "nat (sint ?x) = (n + nat (sint ts) - 1) div nat (sint ts)"
    unfolding v using assms(1) by (rule nat_ceil_div)
  ultimately show ?thesis by blast
qed

lemma task_count_zero_jobs:
  assumes "1 \<le> sint ts"
  shows "cdiv (word_of_nat 0 + (ts - 1)) ts = 0"
proof -
  have "sint ts < 2 ^ 31" using sint_lt [of ts] by simp
  then have "int 0 + sint ts - 1 < 2 ^ 31" by simp
  with assms have "sint (cdiv (word_of_nat 0 + (ts - 1)) ts) = (int 0 + sint ts - 1) div sint ts"
    by (rule task_count_value)
  also have "\<dots> = 0" using assms by (simp add: div_pos_pos_trivial)
  finally show ?thesis by (metis signed_eq_0_iff)
qed

lemma task_count_positive:
  "task_count ndebug jobs ts = Inr x \<Longrightarrow> 0 < nat (sint x)"
  by (auto simp: task_count_def Let_def word_sle_eq split: if_splits)


lemma ceil_div_pred: "0 < t \<Longrightarrow> 0 < (n::nat) \<Longrightarrow> ((n + t - 1) div t - 1) * t < n"
proof -
  assume t: "0 < t" and n: "0 < n"
  define q where "q = (n + t - 1) div t"
  have "q * t \<le> n + t - 1" unfolding q_def by simp
  moreover have "(q - 1) * t = q * t - t" by (simp add: diff_mult_distrib)
  ultimately have "(q - 1) * t < n" using t n by linarith
  then show ?thesis unfolding q_def .
qed


text \<open>
  Claim C3, as the code has it. For a message with a non-empty \<open>ids\<close> list of length \<open>n\<close>
  and a \<open>task_size \<ge> 1\<close> such that \<open>n + task_size - 1\<close> fits a 32-bit \<^verbatim>\<open>int\<close>,
  \<open>partition\<close> packs exactly \<open>ceil (n / task_size)\<close> chunks; the ids of the chunks,
  concatenated in order, are the original ids; every chunk but the last has exactly
  \<open>task_size\<close> ids; every other field of the message is the same in every chunk. For
  every \<open>task_size < 1\<close>, \<open>partition\<close> fails with the invalid-argument error.
\<close>

theorem partition_in_range:
  fixes out :: "('a, 'b) fetch_scheme"
  assumes "ids out \<noteq> []" and "1 \<le>s task_size"
    and "length (ids out) + nat (sint task_size) - 1 < 2 ^ 31"
  shows "(let n = length (ids out); t = nat (sint task_size); k = (n + t - 1) div t;
              cs = chunks out k t
          in partition_output ndebug pack out task_size = Inr (map pack cs) \<and>
             length cs = k \<and> (k - 1) * t < n \<and> n \<le> k * t \<and>
             concat (map ids cs) = ids out \<and>
             (\<forall>i. i + 1 < k \<longrightarrow> length (ids (cs ! i)) = t) \<and>
             (\<forall>c \<in> set cs. fetch.more c = fetch.more out)) \<and>
         (\<forall>ts. ts <s 1 \<longrightarrow>
            partition_output ndebug pack out ts =
              Inl (InvalidArgument (''task_size (= '' @ fmt_d (sint ts) @ '') < 1'')))"
proof -
  define n where "n = length (ids out)"
  define t where "t = nat (sint task_size)"
  define k where "k = (n + t - 1) div t"
  define cs where "cs = chunks out k t"
  have st: "1 \<le> sint task_size" using assms(2) by (simp add: word_sle_eq)
  then have t: "0 < t" and it: "int t = sint task_size" by (simp_all add: t_def)
  have n: "0 < n" using assms(1) by (simp add: n_def)
  have "int n + sint task_size - 1 < 2 ^ 31"
    using assms(3) t unfolding n_def [symmetric] t_def [symmetric] it [symmetric]
    by (simp add: of_nat_diff flip: of_nat_add)
  with st n obtain x where x: "task_count ndebug (word_of_nat n) task_size = Inr x"
      "nat (sint x) = k"
    unfolding k_def t_def using task_count_ok by blast
  have ns: "\<not> task_size <s 1" using st by (simp add: word_sless_alt)
  have run: "partition_output ndebug pack out task_size = Inr (map pack cs)"
    using ns x partition_loop_map [of pack k t "ids out" out]
    by (simp add: partition_output_def cs_def chunks_def flip: n_def t_def)
  have len: "length cs = k" by (simp add: cs_def chunks_def chunks_length)
  have lo: "(k - 1) * t < n" unfolding k_def using t n by (rule ceil_div_pred)
  have up: "n \<le> k * t" unfolding k_def using t by (rule ceil_div_upper)
  have cat: "concat (map ids cs) = ids out"
    using up by (simp add: cs_def chunks_def chunks_concat n_def)
  have full: "\<forall>i. i + 1 < k \<longrightarrow> length (ids (cs ! i)) = t"
  proof (intro allI impI)
    fix i assume i: "i + 1 < k"
    then have "(i + 1) * t \<le> (k - 1) * t" by (intro mult_le_mono1) simp
    then have "i * t + t < n" using lo by simp
    moreover have "ids (cs ! i) = take t (drop (i * t) (ids out))"
      using i by (simp add: cs_def chunks_def chunks_nth)
    ultimately show "length (ids (cs ! i)) = t" by (simp add: n_def)
  qed
  have more: "\<forall>c \<in> set cs. fetch.more c = fetch.more out"
    by (auto simp: cs_def chunks_def dest: chunks_more)
  have bad: "\<forall>ts. ts <s 1 \<longrightarrow>
            partition_output ndebug pack out ts =
              Inl (InvalidArgument (''task_size (= '' @ fmt_d (sint ts) @ '') < 1''))"
    by (simp add: partition_output_def)
  show ?thesis
    unfolding Let_def n_def [symmetric] t_def [symmetric] k_def [symmetric] cs_def [symmetric]
    using run len lo up cat full more bad by blast
qed

text \<open>Five ids in tasks of two: three chunks, the last one short.\<close>

theorem partition_in_range_witness:
  "ids \<lparr>ids = [0::nat, 1, 2, 3, 4]\<rparr> \<noteq> [] \<and> (1::cint) \<le>s 2 \<and>
   length (ids \<lparr>ids = [0::nat, 1, 2, 3, 4]\<rparr>) + nat (sint (2::cint)) - 1 < 2 ^ 31 \<and>
   partition_output True pack_ids \<lparr>ids = [0::nat, 1, 2, 3, 4]\<rparr> 2 = Inr [[0, 1], [2, 3], [4]] \<and>
   concat (map ids (chunks \<lparr>ids = [0::nat, 1, 2, 3, 4]\<rparr> 3 2)) = [0, 1, 2, 3, 4]"
proof -
  let ?out = "\<lparr>ids = [0::nat, 1, 2, 3, 4]\<rparr>"
  have h1: "ids ?out \<noteq> []" by simp
  have h2: "(1::cint) \<le>s 2" by (simp add: word_sle_eq)
  have h3: "length (ids ?out) + nat (sint (2::cint)) - 1 < 2 ^ 31" by simp
  have e: "partition_output True pack_ids ?out 2 = Inr [[0, 1], [2, 3], [4]]" by code_simp
  have k: "(length (ids ?out) + nat (sint (2::cint)) - 1) div nat (sint (2::cint)) = 3" by simp
  have "concat (map ids (chunks ?out 3 2)) = [0, 1, 2, 3, 4]"
    using partition_in_range [OF h1 h2 h3, of True pack_ids] unfolding Let_def k by simp
  with h1 h2 h3 e show ?thesis by blast
qed


text \<open>
  Claim C3 as stated, for every \<open>task_size \<ge> 1\<close>, fails where \<open>n + task_size - 1\<close> leaves
  the range of \<^verbatim>\<open>int\<close>: with two ids and \<open>task_size = 2147483647\<close> the sum wraps to
  \<open>-2147483648\<close>, the quotient is \<open>-1\<close>, and the guard of \<^verbatim>\<open>task_count\<close> throws
  \<^verbatim>\<open>std::runtime_error\<close> instead of returning the one chunk.
\<close>

theorem partition_overflow_counterexample:
  "(1::cint) \<le>s 0x7FFFFFFF \<and> ids \<lparr>ids = [0::nat, 1]\<rparr> \<noteq> [] \<and>
   partition_output True pack_ids \<lparr>ids = [0::nat, 1]\<rparr> 0x7FFFFFFF =
     Inl (RuntimeError ''task-count < 0; probably integer overflow'') \<and>
   partition_output False pack_ids \<lparr>ids = [0::nat, 1]\<rparr> 0x7FFFFFFF =
     Inl (RuntimeError ''task-count < 0; probably integer overflow'')"
  by code_simp


text \<open>
  Claim C10. For every \<open>task_size \<ge> 1\<close>, \<open>partition\<close> on a message with an empty \<open>ids\<close>
  list returns no list of chunks: the task count is 0 and its guard fires, the
  \<^verbatim>\<open>assert\<close> in a debug build and the \<^verbatim>\<open>std::runtime_error\<close> otherwise. Whenever
  \<open>partition\<close> does return, it returns at least one packed task.
\<close>

theorem partition_empty_ids:
  fixes out :: "('a, 'b) fetch_scheme"
  assumes "ids out = []" and "1 \<le>s task_size"
  shows "cdiv (word_of_nat (length (ids out)) + (task_size - 1)) task_size = 0 \<and>
         partition_output ndebug pack out task_size =
           Inl (if ndebug then RuntimeError ''task-count < 0; probably integer overflow''
                else AssertionFailed ''x != 0'') \<and>
         (\<forall>(out' :: ('a, 'b) fetch_scheme) ts xs.
            partition_output ndebug pack out' ts = Inr xs \<longrightarrow> xs \<noteq> [])"
proof -
  have st: "1 \<le> sint task_size" using assms(2) by (simp add: word_sle_eq)
  then have z: "cdiv (word_of_nat 0 + (task_size - 1)) task_size = 0"
    by (rule task_count_zero_jobs)
  have ns: "\<not> task_size <s 1" using st by (simp add: word_sless_alt)
  have tz: "task_size \<noteq> 0" using st by auto
  have run: "partition_output ndebug pack out task_size =
           Inl (if ndebug then RuntimeError ''task-count < 0; probably integer overflow''
                else AssertionFailed ''x != 0'')"
    using ns tz z assms(1) by (simp add: partition_output_def task_count_def)
  have never: "\<forall>(out' :: ('a, 'b) fetch_scheme) ts xs.
            partition_output ndebug pack out' ts = Inr xs \<longrightarrow> xs \<noteq> []"
  proof (intro allI impI)
    fix out' :: "('a, 'b) fetch_scheme" and ts xs
    assume r: "partition_output ndebug pack out' ts = Inr xs"
    then obtain x where x: "task_count ndebug (word_of_nat (length (ids out'))) ts = Inr x"
      and xs: "xs = partition_loop pack (nat (sint x)) (nat (sint ts)) (ids out') out'"
      by (auto simp: partition_output_def split: if_splits sum.splits)
    have "0 < nat (sint x)" using x by (rule task_count_positive)
    moreover have "length xs = nat (sint x)"
      unfolding xs by (subst partition_loop_map) (simp add: chunks_length)
    ultimately show "xs \<noteq> []" by auto
  qed
  show ?thesis using z run never assms(1) by simp
qed


text \<open>No ids, tasks of seven, in a release and in a debug build.\<close>

theorem partition_empty_ids_witness:
  "ids \<lparr>ids = ([]::nat list)\<rparr> = [] \<and> (1::cint) \<le>s 7 \<and>
   partition_output True pack_ids \<lparr>ids = ([]::nat list)\<rparr> 7 =
     Inl (RuntimeError ''task-count < 0; probably integer overflow'') \<and>
   partition_output False pack_ids \<lparr>ids = ([]::nat list)\<rparr> 7 = Inl (AssertionFailed ''x != 0'')"
proof -
  have h1: "ids \<lparr>ids = ([]::nat list)\<rparr> = []" by simp
  have h2: "(1::cint) \<le>s 7" by (simp add: word_sle_eq)
  show ?thesis
    using h1 h2 partition_empty_ids [OF h1 h2, of True pack_ids]
      partition_empty_ids [OF h1 h2, of False pack_ids]
    by simp
qed

subsection \<open>Planner: the slice builder\<close>

lemma find_pos_None: "find_pos xs x = None \<longleftrightarrow> x \<notin> set xs"
  by (induction xs) auto

lemma find_pos_Some:
  "find_pos xs x = Some i \<longleftrightarrow> i < length xs \<and> xs ! i = x \<and> (\<forall>j<i. xs ! j \<noteq> x)"
proof (induction xs arbitrary: i)
  case Nil
  then show ?case by simp
next
  case (Cons y ys)
  show ?case
  proof (cases "y = x")
    case True
    then show ?thesis by (cases i) auto
  next
    case False
    show ?thesis
    proof (cases i)
      case 0
      then show ?thesis using False by simp
    next
      case (Suc k)
      have "(\<forall>j<Suc k. (y # ys) ! j \<noteq> x) \<longleftrightarrow> (\<forall>j<k. ys ! j \<noteq> x)"
        using False by (auto simp: less_Suc_eq_0_disj)
      then show ?thesis using Suc False Cons.IH [of k] by auto
    qed
  qed
qed

lemma geometry_Inr:
  "3 \<le> length dims \<Longrightarrow> 3 \<le> length shp \<Longrightarrow>
   geometry dims shp =
     Inr \<lparr>cube_shape = (length (dims ! 0), length (dims ! 1), length (dims ! 2)),
          fragment_shape = (shp ! 0, shp ! 1, shp ! 2)\<rparr>"
  by (simp add: geometry_def)


text \<open>
  Claim C4. The slice builder looks \<open>lineno\<close> up in \<open>manifest.dimensions[dim]\<close>. When it
  is absent, the builder fails with the invalid-argument error whose message says that
  the line is not found in the index. When its first position is \<open>pin\<close>, the output's
  \<open>lineno\<close> is \<open>pin mod shape[dim]\<close>, with the fragment shape of the query, and the output's
  \<open>ids\<close> are those of \<open>slice dim pin\<close>, each as a vector of \<^verbatim>\<open>int\<close>, in the geometry whose
  cube shape is the lengths of the manifest's three index arrays and whose fragment shape
  is the shape of the query; the output's cube shape is those lengths. The query is well
  formed: the manifest has its three axes, \<open>dim\<close> is one of them, the fragment shape has
  three positive components.
\<close>

theorem build_slice_lookup:
  fixes task :: "'c slice_task"
  assumes "3 \<le> length (dimensions manifest)" and "slice_task.dim task < 3"
    and "3 \<le> length (slice_task.shape task)"
    and "\<forall>i<3. 0 < slice_task.shape task ! i"
  shows "geometry (dimensions manifest) (slice_task.shape task) =
           Inr \<lparr>cube_shape = (length (dimensions manifest ! 0), length (dimensions manifest ! 1),
                              length (dimensions manifest ! 2)),
                fragment_shape = (slice_task.shape task ! 0, slice_task.shape task ! 1,
                                  slice_task.shape task ! 2)\<rparr> \<and>
         (slice_task.lineno task \<notin> set (dimensions manifest ! slice_task.dim task) \<longrightarrow>
            build_slice task manifest =
              Inl (InvalidArgument
                    (''line (= '' @ fmt_d (slice_task.lineno task) @ '') not found in index''))) \<and>
         (\<forall>pin. pin < length (dimensions manifest ! slice_task.dim task) \<and>
                dimensions manifest ! slice_task.dim task ! pin = slice_task.lineno task \<and>
                (\<forall>j<pin. dimensions manifest ! slice_task.dim task ! j \<noteq> slice_task.lineno task) \<longrightarrow>
            (\<exists>out. build_slice task manifest = Inr out \<and>
               slice_fetch.lineno out =
                 int (pin mod (slice_task.shape task ! slice_task.dim task)) \<and>
               ids out =
                 map to_vec
                   (slice \<lparr>cube_shape = (length (dimensions manifest ! 0),
                                         length (dimensions manifest ! 1),
                                         length (dimensions manifest ! 2)),
                           fragment_shape = (slice_task.shape task ! 0, slice_task.shape task ! 1,
                                             slice_task.shape task ! 2)\<rparr>
                      (slice_task.dim task) pin) \<and>
               shape_cube out = map length (dimensions manifest)))"
proof -
  define g where "g = \<lparr>cube_shape = (length (dimensions manifest ! 0),
      length (dimensions manifest ! 1), length (dimensions manifest ! 2)),
    fragment_shape = (slice_task.shape task ! 0, slice_task.shape task ! 1,
      slice_task.shape task ! 2)\<rparr>"
  have geo: "geometry (dimensions manifest) (slice_task.shape task) = Inr g"
    unfolding g_def using assms(1,3) by (rule geometry_Inr)
  have pos: "positive (fragment_shape g)"
    using assms(4) by (simp add: g_def positive_def)
  have cd: "coord (fragment_shape g) (slice_task.dim task) =
            slice_task.shape task ! slice_task.dim task"
    using assms(2) by (auto simp: g_def lt3)
  have ix: "slice_task.dim task < length (dimensions manifest)"
    using assms(1,2) by simp
  have absent: "build_slice task manifest =
                Inl (InvalidArgument
                      (''line (= '' @ fmt_d (slice_task.lineno task) @ '') not found in index''))"
    if "slice_task.lineno task \<notin> set (dimensions manifest ! slice_task.dim task)"
  proof -
    have "find_pos (dimensions manifest ! slice_task.dim task) (slice_task.lineno task) = None"
      using that by (simp add: find_pos_None)
    then show ?thesis using ix by (simp add: build_slice_def)
  qed
  have present: "\<exists>out. build_slice task manifest = Inr out \<and>
                 slice_fetch.lineno out =
                   int (pin mod (slice_task.shape task ! slice_task.dim task)) \<and>
                 ids out = map to_vec (slice g (slice_task.dim task) pin) \<and>
                 shape_cube out = map length (dimensions manifest)"
    if "pin < length (dimensions manifest ! slice_task.dim task) \<and>
        dimensions manifest ! slice_task.dim task ! pin = slice_task.lineno task \<and>
        (\<forall>j<pin. dimensions manifest ! slice_task.dim task ! j \<noteq> slice_task.lineno task)"
    for pin
  proof -
    have "find_pos (dimensions manifest ! slice_task.dim task) (slice_task.lineno task) = Some pin"
      using that by (simp add: find_pos_Some)
    then show ?thesis
      using ix geo pos assms(2) cd by (simp add: build_slice_def slice_fetch_of_def)
  qed
  show ?thesis using geo absent present unfolding g_def by blast
qed

text \<open>
  A cube of shape \<open>(4, 3, 5)\<close>: line 30 is at position 2 of the first axis, line 35 is not
  in its index. In fragments of \<open>(2, 2, 3)\<close> position 2 is local 0 of fragment 1; in
  fragments of \<open>(3, 2, 5)\<close> it is local 2 of fragment 0.
\<close>

theorem build_slice_lookup_witness:
  "3 \<le> length (dimensions \<lparr>dimensions = [[10, 20, 30, 40], [1, 2, 3], [0, 4, 8, 12, 16]]\<rparr>) \<and>
   (\<exists>out. build_slice
            \<lparr>slice_task.dim = 0, slice_task.lineno = 30, slice_task.shape = [2, 2, 3],
             slice_task.common = ()\<rparr>
            \<lparr>dimensions = [[10, 20, 30, 40], [1, 2, 3], [0, 4, 8, 12, 16]]\<rparr> = Inr out \<and>
          slice_fetch.lineno out = 0 \<and>
          ids out = [[1, 0, 0], [1, 0, 1], [1, 1, 0], [1, 1, 1]] \<and>
          shape_cube out = [4, 3, 5]) \<and>
   (\<exists>out. build_slice
            \<lparr>slice_task.dim = 0, slice_task.lineno = 30, slice_task.shape = [3, 2, 5],
             slice_task.common = ()\<rparr>
            \<lparr>dimensions = [[10, 20, 30, 40], [1, 2, 3], [0, 4, 8, 12, 16]]\<rparr> = Inr out \<and>
          slice_fetch.lineno out = 2 \<and>
          ids out = [[0, 0, 0], [0, 1, 0]] \<and>
          shape_cube out = [4, 3, 5]) \<and>
   build_slice
     \<lparr>slice_task.dim = 0, slice_task.lineno = 35, slice_task.shape = [2, 2, 3],
      slice_task.common = ()\<rparr>
     \<lparr>dimensions = [[10, 20, 30, 40], [1, 2, 3], [0, 4, 8, 12, 16]]\<rparr> =
     Inl (InvalidArgument ''line (= 35) not found in index'')"
proof -
  let ?m = "\<lparr>dimensions = [[10, 20, 30, 40], [1, 2, 3], [0, 4, 8, 12, 16]]\<rparr>"
  let ?t = "\<lparr>slice_task.dim = 0, slice_task.lineno = 30, slice_task.shape = [2, 2, 3],
             slice_task.common = ()\<rparr>"
  let ?v = "\<lparr>slice_task.dim = 0, slice_task.lineno = 30, slice_task.shape = [3, 2, 5],
             slice_task.common = ()\<rparr>"
  let ?u = "\<lparr>slice_task.dim = 0, slice_task.lineno = 35, slice_task.shape = [2, 2, 3],
             slice_task.common = ()\<rparr>"
  have h1: "3 \<le> length (dimensions ?m)" by simp
  have h2: "slice_task.dim ?t < 3" by simp
  have h3: "3 \<le> length (slice_task.shape ?t)" by simp
  have h4: "\<forall>i<3. 0 < slice_task.shape ?t ! i" by (simp add: lt3)
  have v2: "slice_task.dim ?v < 3" by simp
  have v3: "3 \<le> length (slice_task.shape ?v)" by simp
  have v4: "\<forall>i<3. 0 < slice_task.shape ?v ! i" by (simp add: lt3)
  have u2: "slice_task.dim ?u < 3" by simp
  have u3: "3 \<le> length (slice_task.shape ?u)" by simp
  have u4: "\<forall>i<3. 0 < slice_task.shape ?u ! i" by (simp add: lt3)
  have pint: "2 < length (dimensions ?m ! slice_task.dim ?t) \<and>
        dimensions ?m ! slice_task.dim ?t ! 2 = slice_task.lineno ?t \<and>
        (\<forall>j<2. dimensions ?m ! slice_task.dim ?t ! j \<noteq> slice_task.lineno ?t)"
    by (simp add: less_Suc_eq numeral_2_eq_2)
  have pinv: "2 < length (dimensions ?m ! slice_task.dim ?v) \<and>
        dimensions ?m ! slice_task.dim ?v ! 2 = slice_task.lineno ?v \<and>
        (\<forall>j<2. dimensions ?m ! slice_task.dim ?v ! j \<noteq> slice_task.lineno ?v)"
    by (simp add: less_Suc_eq numeral_2_eq_2)
  obtain out where out: "build_slice ?t ?m = Inr out"
      "slice_fetch.lineno out = int (2 mod (slice_task.shape ?t ! slice_task.dim ?t))"
      "ids out =
         map to_vec
           (slice \<lparr>cube_shape = (length (dimensions ?m ! 0), length (dimensions ?m ! 1),
                                 length (dimensions ?m ! 2)),
                   fragment_shape = (slice_task.shape ?t ! 0, slice_task.shape ?t ! 1,
                                     slice_task.shape ?t ! 2)\<rparr>
              (slice_task.dim ?t) 2)"
      "shape_cube out = map length (dimensions ?m)"
    using build_slice_lookup [OF h1 h2 h3 h4, THEN conjunct2, THEN conjunct2, rule_format,
        OF pint]
    by blast
  have o2: "slice_fetch.lineno out = 0" using out(2) by simp
  have o3: "ids out = [[1, 0, 0], [1, 0, 1], [1, 1, 0], [1, 1, 1]]"
    unfolding out(3)
    by (simp add: slice_def axis_range_def fragment_count_def to_vec_def upt_conv_Cons)
  have o4: "shape_cube out = [4, 3, 5]" using out(4) by simp
  have a: "\<exists>out. build_slice ?t ?m = Inr out \<and> slice_fetch.lineno out = 0 \<and>
          ids out = [[1, 0, 0], [1, 0, 1], [1, 1, 0], [1, 1, 1]] \<and> shape_cube out = [4, 3, 5]"
    using out(1) o2 o3 o4 by (intro exI conjI)
  obtain out' where out': "build_slice ?v ?m = Inr out'"
      "slice_fetch.lineno out' = int (2 mod (slice_task.shape ?v ! slice_task.dim ?v))"
      "ids out' =
         map to_vec
           (slice \<lparr>cube_shape = (length (dimensions ?m ! 0), length (dimensions ?m ! 1),
                                 length (dimensions ?m ! 2)),
                   fragment_shape = (slice_task.shape ?v ! 0, slice_task.shape ?v ! 1,
                                     slice_task.shape ?v ! 2)\<rparr>
              (slice_task.dim ?v) 2)"
      "shape_cube out' = map length (dimensions ?m)"
    using build_slice_lookup [OF h1 v2 v3 v4, THEN conjunct2, THEN conjunct2, rule_format,
        OF pinv]
    by blast
  have p2: "slice_fetch.lineno out' = 2" using out'(2) by simp
  have p3: "ids out' = [[0, 0, 0], [0, 1, 0]]"
    unfolding out'(3)
    by (simp add: slice_def axis_range_def fragment_count_def to_vec_def upt_conv_Cons)
  have p4: "shape_cube out' = [4, 3, 5]" using out'(4) by simp
  have a': "\<exists>out. build_slice ?v ?m = Inr out \<and> slice_fetch.lineno out = 2 \<and>
          ids out = [[0, 0, 0], [0, 1, 0]] \<and> shape_cube out = [4, 3, 5]"
    using out'(1) p2 p3 p4 by (intro exI conjI)
  have f: "fmt_d 35 = ''35''" by code_simp
  have b: "build_slice ?u ?m = Inl (InvalidArgument ''line (= 35) not found in index'')"
    using build_slice_lookup [OF h1 u2 u3 u4, THEN conjunct2, THEN conjunct1] by (simp add: f)
  show ?thesis using h1 a a' b by (intro conjI)
qed

subsection \<open>Planner: the curtain builder\<close>

lemma expand_simps [simp]:
  "expand zf [] = []" "expand zf (c # cs) = stack zf c @ expand zf cs"
  "expand zf (cs @ ds) = expand zf cs @ expand zf ds"
  by (simp_all add: expand_def)

lemma expand_zero [simp]: "expand 0 cs = []"
  by (induction cs) (simp_all add: stack_def)

lemma lexicographical_compare3:
  "lexicographical_compare [a, b, c] [a', b', c'] \<longleftrightarrow>
     a < a' \<or> (a = a' \<and> (b < b' \<or> (b = b' \<and> c < c')))"
  by auto

lemma less_id_stack:
  "e \<in> set (stack zf c) \<Longrightarrow> less_id e (fst k, snd k, 0) \<longleftrightarrow> column_less (fst c) k"
  by (auto simp: stack_def less_id_def to_list_def column_less_def lexicographical_compare3
           simp del: lexicographical_compare.simps)

lemma equal_id_stack:
  "e \<in> set (stack zf c) \<Longrightarrow> z = (0::nat) \<Longrightarrow> single_id e = [fst (fst c), snd (fst c), z'] \<Longrightarrow>
   equal_id (single_id e) (fst k, snd k, z) \<longleftrightarrow> fst c = k \<and> z' = 0"
  by (auto simp: equal_id_def to_list_def prod_eq_iff)

lemma stack_Cons:
  "0 < zf \<Longrightarrow> stack zf c =
     \<lparr>single_id = [fst (fst c), snd (fst c), 0], coordinates = snd c\<rparr> # tl (stack zf c)"
  by (simp add: stack_def upt_conv_Cons)

lemma length_stack [simp]: "length (stack zf c) = zf"
  by (simp add: stack_def)

lemma lower_bound_append_less:
  "\<forall>e \<in> set pre. less_id e fid \<Longrightarrow> lower_bound (pre @ rest) fid = length pre + lower_bound rest fid"
  by (simp add: lower_bound_def takeWhile_append2)

lemma lower_bound_Cons_not_less:
  "\<not> less_id e fid \<Longrightarrow> lower_bound (e # rest) fid = 0"
  by (simp add: lower_bound_def)

lemma lower_bound_Nil [simp]: "lower_bound [] fid = 0"
  by (simp add: lower_bound_def)

lemma lower_bound_le: "lower_bound xs fid \<le> length xs"
  by (simp add: lower_bound_def length_takeWhile_le)

lemma insert_stack_append_less:
  assumes "\<forall>e \<in> set pre. less_id e (frag_id g (fst xy, snd xy, 0))"
  shows "insert_stack g zf (pre @ rest) xy = pre @ insert_stack g zf rest xy"
proof -
  let ?fid = "frag_id g (fst xy, snd xy, 0)"
  have lb: "lower_bound (pre @ rest) ?fid = length pre + lower_bound rest ?fid"
    using assms by (rule lower_bound_append_less)
  show ?thesis
    unfolding insert_stack_def Let_def lb
    by (simp add: nth_append)
qed

lemma insert_stack_Nil:
  "insert_stack g zf [] xy = stack zf (column g xy, [])"
  by (simp add: insert_stack_def Let_def stack_def column_def frag_id_def to_list_def)

lemma insert_stack_Cons_not_less:
  assumes "\<not> less_id e (frag_id g (fst xy, snd xy, 0))"
  shows "insert_stack g zf (e # rest) xy =
    (if equal_id (single_id e) (frag_id g (fst xy, snd xy, 0)) then e # rest
     else stack zf (column g xy, []) @ e # rest)"
  using assms
  by (simp add: insert_stack_def Let_def lower_bound_Cons_not_less stack_def column_def frag_id_def to_list_def)

lemma frag_id_top: "frag_id g (fst xy, snd xy, 0) = (fst (column g xy), snd (column g xy), 0)"
  by (simp add: frag_id_def column_def)

lemma to_local_top:
  "(int (coord (to_local g (fst xy, snd xy, 0)) 0), int (coord (to_local g (fst xy, snd xy, 0)) 1)) =
   local_xy g xy"
  by (simp add: to_local_def local_xy_def)

lemma insert_stack_expand:
  "insert_stack g zf (expand zf cs) xy = expand zf (ins (column g xy) cs)"
proof (cases "zf = 0")
  case True
  then show ?thesis by (simp add: insert_stack_Nil stack_def)
next
  case False
  then have zf: "0 < zf" by simp
  let ?k = "column g xy"
  show ?thesis
  proof (induction cs)
    case Nil
    show ?case by (simp add: insert_stack_Nil)
  next
    case (Cons c cs)
    show ?case
    proof (cases "column_less (fst c) ?k")
      case True
      then have "\<forall>e \<in> set (stack zf c). less_id e (frag_id g (fst xy, snd xy, 0))"
        by (simp add: frag_id_top less_id_stack [where k = ?k])
      then have "insert_stack g zf (stack zf c @ expand zf cs) xy =
                 stack zf c @ insert_stack g zf (expand zf cs) xy"
        by (rule insert_stack_append_less)
      then show ?thesis using True Cons.IH by simp
    next
      case False
      let ?e = "\<lparr>single_id = [fst (fst c), snd (fst c), 0], coordinates = snd c\<rparr>"
      have st: "stack zf c = ?e # tl (stack zf c)" using zf by (rule stack_Cons)
      then have mem: "?e \<in> set (stack zf c)" by (metis list.set_intros(1))
      have nl: "\<not> less_id ?e (frag_id g (fst xy, snd xy, 0))"
        using False less_id_stack [OF mem, of ?k] by (simp add: frag_id_top)
      have eq: "equal_id (single_id ?e) (frag_id g (fst xy, snd xy, 0)) \<longleftrightarrow> fst c = ?k"
        by (auto simp: equal_id_def to_list_def frag_id_top prod_eq_iff)
      have full: "stack zf c @ expand zf cs = ?e # (tl (stack zf c) @ expand zf cs)"
        using st by (metis append_Cons)
      have "insert_stack g zf (?e # (tl (stack zf c) @ expand zf cs)) xy =
            (if fst c = ?k then ?e # (tl (stack zf c) @ expand zf cs)
             else stack zf (?k, []) @ ?e # (tl (stack zf c) @ expand zf cs))"
        using insert_stack_Cons_not_less [OF nl] eq by simp
      then have "insert_stack g zf (stack zf c @ expand zf cs) xy =
            (if fst c = ?k then stack zf c @ expand zf cs
             else stack zf (?k, []) @ stack zf c @ expand zf cs)"
        unfolding full [symmetric] .
      then show ?thesis using False by simp
    qed
  qed
qed

lemma put_coordinates_append_less:
  assumes "\<forall>e \<in> set pre. less_id e (frag_id g (fst xy, snd xy, 0))"
  shows "put_coordinates g zf (pre @ rest) xy =
         (case put_coordinates g zf rest xy of Inl e \<Rightarrow> Inl e | Inr r \<Rightarrow> Inr (pre @ r))"
proof -
  let ?fid = "frag_id g (fst xy, snd xy, 0)"
  have lb: "lower_bound (pre @ rest) ?fid = length pre + lower_bound rest ?fid"
    using assms by (rule lower_bound_append_less)
  show ?thesis
    unfolding put_coordinates_def Let_def lb
    by (simp add: add.assoc)
qed

lemma map_stack:
  "map (\<lambda>task. task\<lparr>coordinates := coordinates task @ [l]\<rparr>) (stack zf c) =
   stack zf (fst c, snd c @ [l])"
  by (simp add: stack_def)

lemma put_coordinates_stack:
  assumes "0 < zf" and "\<not> column_less (fst c) (column g xy)"
  shows "put_coordinates g zf (stack zf c @ rest) xy =
         Inr (stack zf (fst c, snd c @ [local_xy g xy]) @ rest)"
proof -
  let ?e = "\<lparr>single_id = [fst (fst c), snd (fst c), 0], coordinates = snd c\<rparr>"
  have st: "stack zf c = ?e # tl (stack zf c)" using assms(1) by (rule stack_Cons)
  then have mem: "?e \<in> set (stack zf c)" by (metis list.set_intros(1))
  have nl: "\<not> less_id ?e (frag_id g (fst xy, snd xy, 0))"
    using assms(2) less_id_stack [OF mem, of "column g xy"] by (simp add: frag_id_top)
  have "lower_bound (?e # (tl (stack zf c) @ rest)) (frag_id g (fst xy, snd xy, 0)) = 0"
    using nl by (rule lower_bound_Cons_not_less)
  then have lb: "lower_bound (stack zf c @ rest) (frag_id g (fst xy, snd xy, 0)) = 0"
    using st by (metis append_Cons)
  show ?thesis
    unfolding put_coordinates_def Let_def lb to_local_top
    by (simp add: map_stack)
qed

lemma put_coordinates_expand:
  "app (column g xy) (local_xy g xy) cs = Some cs' \<Longrightarrow>
   put_coordinates g zf (expand zf cs) xy = Inr (expand zf cs')"
proof (cases "zf = 0")
  case True
  then show ?thesis by (simp add: put_coordinates_def)
next
  case False
  then have zf: "0 < zf" by simp
  show "app (column g xy) (local_xy g xy) cs = Some cs' \<Longrightarrow>
   put_coordinates g zf (expand zf cs) xy = Inr (expand zf cs')"
  proof (induction cs arbitrary: cs')
    case Nil
    then show ?case by simp
  next
    case (Cons c cs)
    show ?case
    proof (cases "column_less (fst c) (column g xy)")
      case True
      then obtain ds where ds: "app (column g xy) (local_xy g xy) cs = Some ds" "cs' = c # ds"
        using Cons.prems by auto
      have "\<forall>e \<in> set (stack zf c). less_id e (frag_id g (fst xy, snd xy, 0))"
        using True by (simp add: frag_id_top less_id_stack [where k = "column g xy"])
      then have "put_coordinates g zf (stack zf c @ expand zf cs) xy =
         (case put_coordinates g zf (expand zf cs) xy of Inl e \<Rightarrow> Inl e
          | Inr r \<Rightarrow> Inr (stack zf c @ r))"
        by (rule put_coordinates_append_less)
      then show ?thesis using Cons.IH [OF ds(1)] ds(2) by simp
    next
      case False
      then have "cs' = (fst c, snd c @ [local_xy g xy]) # cs" using Cons.prems by simp
      then show ?thesis using put_coordinates_stack [OF zf False] by simp
    qed
  qed
qed

lemma column_less_irrefl [simp]: "\<not> column_less k k"
  by (simp add: column_less_def)

lemma column_less_trans: "column_less a b \<Longrightarrow> column_less b c \<Longrightarrow> column_less a c"
  by (auto simp: column_less_def)

lemma column_less_total: "\<not> column_less a b \<Longrightarrow> a \<noteq> b \<Longrightarrow> column_less b a"
  by (auto simp: column_less_def prod_eq_iff)

lemma set_ins: "fst ` set (ins k cs) = insert k (fst ` set cs)"
  by (induction cs) auto

lemma sorted_ins:
  "sorted_wrt column_less (map fst cs) \<Longrightarrow> sorted_wrt column_less (map fst (ins k cs))"
proof (induction cs)
  case Nil
  then show ?case by simp
next
  case (Cons c cs)
  have tl: "sorted_wrt column_less (map fst (ins k cs))" using Cons by simp
  have above: "\<forall>a \<in> fst ` set cs. column_less (fst c) a" using Cons.prems by auto
  show ?case
  proof (cases "column_less (fst c) k")
    case True
    then have "\<forall>a \<in> fst ` set (ins k cs). column_less (fst c) a"
      using above by (simp add: set_ins)
    then show ?thesis using True tl by auto
  next
    case False
    show ?thesis
    proof (cases "fst c = k")
      case True
      then show ?thesis using False Cons.prems by simp
    next
      case neq: False
      then have kc: "column_less k (fst c)" using False by (simp add: column_less_total)
      then have "\<forall>a \<in> fst ` set cs. column_less k a"
        using above column_less_trans by blast
      then show ?thesis using False neq kc Cons.prems by auto
    qed
  qed
qed

lemma empty_ins: "\<forall>c \<in> set cs. snd c = [] \<Longrightarrow> \<forall>c \<in> set (ins k cs). snd c = []"
  by (induction cs) auto

lemma foldl_insert_stack:
  "foldl (insert_stack g zf) (expand zf cs) xys =
   expand zf (foldl (\<lambda>cs xy. ins (column g xy) cs) cs xys)"
  by (induction xys arbitrary: cs) (simp_all add: insert_stack_expand)

lemma allocate_fits:
  "approx < 2 ^ 31 \<Longrightarrow> allocate g zf approx bins xy = Inr (insert_stack g zf bins xy)"
  by (simp add: allocate_def insert_stack_def reserve_def Let_def)

lemma allocate_all_fits:
  "approx < 2 ^ 31 \<or> xys = [] \<Longrightarrow>
   allocate_all g zf approx bins xys = Inr (foldl (insert_stack g zf) bins xys)"
  by (induction xys arbitrary: bins) (simp_all add: allocate_fits)

lemma allocate_all_fails:
  "\<not> approx < 2 ^ 31 \<Longrightarrow> xys \<noteq> [] \<Longrightarrow>
   allocate_all g zf approx [] xys = Inl (AllocationFailed ''vector::reserve'')"
  by (cases xys) (simp_all add: allocate_def reserve_def Let_def)

lemma foldl_ins:
  assumes "sorted_wrt column_less (map fst cs)" and "\<forall>c \<in> set cs. snd c = []"
  shows "sorted_wrt column_less (map fst (foldl (\<lambda>cs xy. ins (column g xy) cs) cs xys)) \<and>
         fst ` set (foldl (\<lambda>cs xy. ins (column g xy) cs) cs xys) = column g ` set xys \<union> fst ` set cs \<and>
         (\<forall>c \<in> set (foldl (\<lambda>cs xy. ins (column g xy) cs) cs xys). snd c = [])"
  using assms
proof (induction xys arbitrary: cs)
  case Nil
  then show ?case by simp
next
  case (Cons xy xys)
  have "sorted_wrt column_less (map fst (ins (column g xy) cs))"
    using Cons.prems(1) by (rule sorted_ins)
  moreover have "\<forall>c \<in> set (ins (column g xy) cs). snd c = []"
    using Cons.prems(2) by (rule empty_ins)
  ultimately show ?case using Cons.IH [of "ins (column g xy) cs"] by (simp add: set_ins)
qed

lemma app_sorted:
  "sorted_wrt column_less (map fst cs) \<Longrightarrow> k \<in> fst ` set cs \<Longrightarrow>
   app k l cs = Some (map (\<lambda>c. if fst c = k then (fst c, snd c @ [l]) else c) cs)"
proof (induction cs)
  case Nil
  then show ?case by simp
next
  case (Cons c cs)
  have above: "\<forall>a \<in> fst ` set cs. column_less (fst c) a" using Cons.prems(1) by auto
  show ?case
  proof (cases "column_less (fst c) k")
    case True
    then have "fst c \<noteq> k" by auto
    then have "k \<in> fst ` set cs" using Cons.prems(2) by auto
    then show ?thesis using True \<open>fst c \<noteq> k\<close> Cons by simp
  next
    case False
    then have "k \<notin> fst ` set cs" using above by blast
    then have "fst c = k" and "\<forall>d \<in> set cs. fst d \<noteq> k"
      using Cons.prems(2) by force+
    then have "map (\<lambda>c. if fst c = k then (fst c, snd c @ [l]) else c) cs = cs"
      by (simp add: map_idI)
    then show ?thesis using False \<open>fst c = k\<close> by simp
  qed
qed

lemma fst_fill [simp]: "map fst (fill g xys cs) = map fst cs"
  by (simp add: fill_def o_def)

lemma put_all_expand:
  "sorted_wrt column_less (map fst cs) \<Longrightarrow> column g ` set xys \<subseteq> fst ` set cs \<Longrightarrow>
   put_all g zf (expand zf cs) xys = Inr (expand zf (fill g xys cs))"
proof (induction xys arbitrary: cs)
  case Nil
  then show ?case by (simp add: fill_def)
next
  case (Cons xy xys)
  let ?k = "column g xy" and ?l = "local_xy g xy"
  let ?cs = "map (\<lambda>c. if fst c = ?k then (fst c, snd c @ [?l]) else c) cs"
  have k: "?k \<in> fst ` set cs" using Cons.prems(2) by simp
  have a: "app ?k ?l cs = Some ?cs" using Cons.prems(1) k by (rule app_sorted)
  have f: "map fst ?cs = map fst cs" by (induction cs) auto
  have s: "sorted_wrt column_less (map fst ?cs)" unfolding f using Cons.prems(1) .
  have "fst ` set ?cs = fst ` set cs" using f by (metis set_map)
  then have sub: "column g ` set xys \<subseteq> fst ` set ?cs" using Cons.prems(2) by simp
  have step: "put_coordinates g zf (expand zf cs) xy = Inr (expand zf ?cs)"
    using a by (rule put_coordinates_expand)
  have "fill g xys ?cs = fill g (xy # xys) cs"
    by (induction cs) (auto simp: fill_def)
  then show ?case using step Cons.IH [OF s sub] by simp
qed

lemma lexicographical_compare_irrefl: "\<not> lexicographical_compare xs xs"
  by (induction xs) auto

lemma sorted_wrt_irrefl_distinct':
  "sorted_wrt P xs \<Longrightarrow> (\<forall>x. \<not> P x x) \<Longrightarrow> distinct xs"
  by (induction xs) auto

lemma sorted_stack_ids:
  "sorted_wrt lexicographical_compare (map single_id (stack zf c))"
proof -
  have "sorted_wrt (<) [0..<zf]" by simp
  then have "sorted_wrt (\<lambda>x y. lexicographical_compare [fst (fst c), snd (fst c), x]
      [fst (fst c), snd (fst c), y]) [0..<zf]"
    by (simp add: lexicographical_compare3 del: lexicographical_compare.simps)
  then show ?thesis by (simp add: stack_def sorted_wrt_map o_def)
qed

lemma sorted_ids_expand:
  assumes "sorted_wrt column_less (map fst cs)"
  shows "sorted_wrt lexicographical_compare (map single_id (expand zf cs))"
proof -
  have m: "map single_id (expand zf cs) = concat (map (\<lambda>c. map single_id (stack zf c)) cs)"
    by (simp add: expand_def map_concat o_def)
  have r: "sorted_wrt (\<lambda>c d. column_less (fst c) (fst d)) cs"
    using assms by (simp add: sorted_wrt_map)
  have inner: "\<forall>c \<in> set cs. sorted_wrt lexicographical_compare (map single_id (stack zf c))"
    by (simp add: sorted_stack_ids)
  have outer: "\<forall>c \<in> set cs. \<forall>d \<in> set cs. column_less (fst c) (fst d) \<longrightarrow>
      (\<forall>u \<in> set (map single_id (stack zf c)). \<forall>v \<in> set (map single_id (stack zf d)).
         lexicographical_compare u v)"
    by (auto simp: stack_def column_less_def)
  show ?thesis unfolding m using r inner outer by (rule sorted_wrt_concat_map)
qed

lemma stack_in_expand:
  assumes "k \<in> fst ` set cs"
  shows "\<exists>pre post c. c \<in> set cs \<and> fst c = k \<and> expand zf cs = pre @ stack zf c @ post"
proof -
  obtain c where c: "c \<in> set cs" "fst c = k" using assms by auto
  then obtain ps qs where "cs = ps @ c # qs" by (meson split_list)
  then have "expand zf cs = expand zf ps @ stack zf c @ expand zf qs" by simp
  then show ?thesis using c by blast
qed

lemma stack_fill:
  assumes "c \<in> set (fill g xys cs)" and "\<forall>d \<in> set cs. snd d = []" and "fst c = column g xy"
  shows "stack (fragment_count g 2) c = column_stack g xys xy"
proof -
  obtain d where d: "d \<in> set cs"
    "c = (fst d, snd d @ map (local_xy g) (filter (\<lambda>p. column g p = fst d) xys))"
    using assms(1) by (auto simp: fill_def)
  then have "snd c = map (local_xy g) (filter (\<lambda>p. column g p = column g xy) xys)"
    using assms(2,3) by simp
  then show ?thesis using assms(3) by (simp add: stack_def column_stack_def)
qed


text \<open>
  Claim C5. For every curtain query with coordinate arrays of equal length, the ids of
  the list that the builder returns are strictly ascending in the lexicographic order
  (hence distinct), and for every input pair the list contains, as one run of consecutive
  entries, the full stack of its column: \<open>fragment_count 2\<close> entries with third component
  \<open>0 .. zfrags - 1\<close>, each holding the local pairs \<open>(x mod F[0], y mod F[1])\<close> of all input
  pairs of that column, in input order. The geometry is the one of the query: its cube
  shape is the lengths of the manifest's three index arrays, its fragment shape \<open>F\<close> is
  the shape of the query. The builder returns when the capacity it reserves,
  \<open>max F[0] F[1] * 6 div 5\<close>, fits an \<^verbatim>\<open>int\<close> or there is no input pair; otherwise
  \<^verbatim>\<open>reserve\<close> throws. The query is well formed: the manifest has its three axes and the
  fragment shape has three positive components.
\<close>

theorem build_curtain_columns:
  fixes task :: "'c curtain_task"
  assumes "3 \<le> length (dimensions manifest)" and "3 \<le> length (curtain_task.shape task)"
    and "\<forall>i<3. 0 < curtain_task.shape task ! i"
    and "length (dim0s task) = length (dim1s task)"
  shows "geometry (dimensions manifest) (curtain_task.shape task) =
           Inr \<lparr>cube_shape = (length (dimensions manifest ! 0), length (dimensions manifest ! 1),
                              length (dimensions manifest ! 2)),
                fragment_shape = (curtain_task.shape task ! 0, curtain_task.shape task ! 1,
                                  curtain_task.shape task ! 2)\<rparr> \<and>
         (max (curtain_task.shape task ! 0) (curtain_task.shape task ! 1) * 6 div 5 < 2 ^ 31 \<or>
          dim0s task = [] \<longrightarrow>
            (\<exists>out. build_curtain task manifest = Inr out)) \<and>
         (\<not> max (curtain_task.shape task ! 0) (curtain_task.shape task ! 1) * 6 div 5 < 2 ^ 31 \<and>
          dim0s task \<noteq> [] \<longrightarrow>
            build_curtain task manifest = Inl (AllocationFailed ''vector::reserve'')) \<and>
         (\<forall>out. build_curtain task manifest = Inr out \<longrightarrow>
            sorted_wrt lexicographical_compare (map single_id (ids out)) \<and>
            distinct (map single_id (ids out)) \<and>
            (\<forall>xy \<in> set (zip (dim0s task) (dim1s task)).
               \<exists>pre post.
                 ids out =
                   pre @
                   column_stack
                     \<lparr>cube_shape = (length (dimensions manifest ! 0),
                                     length (dimensions manifest ! 1),
                                     length (dimensions manifest ! 2)),
                       fragment_shape = (curtain_task.shape task ! 0, curtain_task.shape task ! 1,
                                         curtain_task.shape task ! 2)\<rparr>
                     (zip (dim0s task) (dim1s task)) xy @
                   post))"
proof -
  define g where "g = \<lparr>cube_shape = (length (dimensions manifest ! 0),
      length (dimensions manifest ! 1), length (dimensions manifest ! 2)),
    fragment_shape = (curtain_task.shape task ! 0, curtain_task.shape task ! 1,
      curtain_task.shape task ! 2)\<rparr>"
  define xys where "xys = zip (dim0s task) (dim1s task)"
  define zf where "zf = fragment_count g 2"
  define a where "a = approx_coordinates_per_fragment g"
  define cs where "cs = foldl (\<lambda>cs xy. ins (column g xy) cs) [] xys"
  define out0 where "out0 = (curtain_fetch_of task)\<lparr>ids := expand zf (fill g xys cs)\<rparr>"
  have geo: "geometry (dimensions manifest) (curtain_task.shape task) = Inr g"
    unfolding g_def using assms(1,2) by (rule geometry_Inr)
  have pos: "positive (fragment_shape g)"
    using assms(3) by (simp add: g_def positive_def)
  have av: "a = max (curtain_task.shape task ! 0) (curtain_task.shape task ! 1) * 6 div 5"
    by (simp add: a_def approx_coordinates_per_fragment_def g_def)
  have empty: "xys = [] \<longleftrightarrow> dim0s task = []"
    using assms(4) by (cases "dim0s task"; cases "dim1s task") (simp_all add: xys_def)
  have inv: "sorted_wrt column_less (map fst cs) \<and>
         fst ` set cs = column g ` set xys \<and> (\<forall>c \<in> set cs. snd c = [])"
    unfolding cs_def using foldl_ins [of "[]" g xys] by simp
  then have srt: "sorted_wrt column_less (map fst cs)"
    and keys: "fst ` set cs = column g ` set xys" and emp: "\<forall>c \<in> set cs. snd c = []"
    by simp_all
  have ins_all: "foldl (insert_stack g zf) [] xys = expand zf cs"
    using foldl_insert_stack [of g zf "[]" xys] by (simp add: cs_def)
  have put: "put_all g zf (expand zf cs) xys = Inr (expand zf (fill g xys cs))"
    using srt keys by (intro put_all_expand) simp_all
  have run: "build_curtain task manifest = Inr out0" if "a < 2 ^ 31 \<or> xys = []"
  proof -
    have "allocate_all g zf a [] xys = Inr (expand zf cs)"
      using allocate_all_fits [OF that, of g zf "[]"] ins_all by simp
    then show ?thesis
      using geo pos assms(4) put
      by (simp add: build_curtain_def curtain_fetch_of_def out0_def flip: xys_def zf_def a_def)
  qed
  have fail: "build_curtain task manifest = Inl (AllocationFailed ''vector::reserve'')"
    if "\<not> a < 2 ^ 31" and "xys \<noteq> []"
  proof -
    have "allocate_all g zf a [] xys = Inl (AllocationFailed ''vector::reserve'')"
      using that by (rule allocate_all_fails)
    then show ?thesis
      using geo pos assms(4)
      by (simp add: build_curtain_def curtain_fetch_of_def flip: xys_def zf_def a_def)
  qed
  have ids0: "ids out0 = expand zf (fill g xys cs)" by (simp add: out0_def)
  have s: "sorted_wrt lexicographical_compare (map single_id (ids out0))"
    unfolding ids0 using srt by (intro sorted_ids_expand) simp
  then have d: "distinct (map single_id (ids out0))"
    by (rule sorted_wrt_irrefl_distinct') (simp add: lexicographical_compare_irrefl)
  have col: "\<forall>xy \<in> set xys. \<exists>pre post. ids out0 = pre @ column_stack g xys xy @ post"
  proof
    fix xy assume "xy \<in> set xys"
    then have "column g xy \<in> fst ` set (fill g xys cs)"
      using keys by (metis fst_fill image_eqI set_map)
    then obtain pre post c where c: "c \<in> set (fill g xys cs)" "fst c = column g xy"
        "expand zf (fill g xys cs) = pre @ stack zf c @ post"
      using stack_in_expand by blast
    have "stack zf c = column_stack g xys xy"
      unfolding zf_def using c(1) emp c(2) by (rule stack_fill)
    then show "\<exists>pre post. ids out0 = pre @ column_stack g xys xy @ post"
      using c(3) ids0 by auto
  qed
  have props: "sorted_wrt lexicographical_compare (map single_id (ids out)) \<and>
            distinct (map single_id (ids out)) \<and>
            (\<forall>xy \<in> set xys. \<exists>pre post. ids out = pre @ column_stack g xys xy @ post)"
    if r: "build_curtain task manifest = Inr out" for out
  proof (cases "a < 2 ^ 31 \<or> xys = []")
    case True
    then have "out = out0" using run r by simp
    then show ?thesis using s d col by simp
  next
    case False
    then have "build_curtain task manifest = Inl (AllocationFailed ''vector::reserve'')"
      using fail by simp
    then show ?thesis using r by simp
  qed
  have returns: "a < 2 ^ 31 \<or> dim0s task = [] \<longrightarrow> (\<exists>out. build_curtain task manifest = Inr out)"
    using run empty by blast
  have throws: "\<not> a < 2 ^ 31 \<and> dim0s task \<noteq> [] \<longrightarrow>
      build_curtain task manifest = Inl (AllocationFailed ''vector::reserve'')"
    using fail empty by blast
  show ?thesis
    using geo returns throws props unfolding av xys_def g_def by blast
qed

text \<open>
  Three input pairs in three columns of a cube of shape \<open>(4, 3, 5)\<close>: with fragments of
  \<open>(2, 2, 3)\<close> the stacks are two fragments deep, with fragments of \<open>(4, 1, 5)\<close> one. With a
  fragment shape of \<open>(2147483647, 2, 3)\<close> the capacity does not fit an \<^verbatim>\<open>int\<close>.
\<close>

theorem build_curtain_columns_witness:
  "3 \<le> length (dimensions \<lparr>dimensions = [[10, 20, 30, 40], [1, 2, 3], [0, 4, 8, 12, 16]]\<rparr>) \<and>
   length (dim0s \<lparr>dim0s = [3, 0, 1], dim1s = [0, 2, 1], curtain_task.shape = [2, 2, 3],
                  curtain_task.common = ()\<rparr>) =
   length (dim1s \<lparr>dim0s = [3, 0, 1], dim1s = [0, 2, 1], curtain_task.shape = [2, 2, 3],
                  curtain_task.common = ()\<rparr>) \<and>
   build_curtain
     \<lparr>dim0s = [3, 0, 1], dim1s = [0, 2, 1], curtain_task.shape = [2, 2, 3],
      curtain_task.common = ()\<rparr>
     \<lparr>dimensions = [[10, 20, 30, 40], [1, 2, 3], [0, 4, 8, 12, 16]]\<rparr> =
   Inr \<lparr>ids =
         [\<lparr>single_id = [0, 0, 0], coordinates = [(1, 1)]\<rparr>,
          \<lparr>single_id = [0, 0, 1], coordinates = [(1, 1)]\<rparr>,
          \<lparr>single_id = [0, 1, 0], coordinates = [(0, 0)]\<rparr>,
          \<lparr>single_id = [0, 1, 1], coordinates = [(0, 0)]\<rparr>,
          \<lparr>single_id = [1, 0, 0], coordinates = [(1, 0)]\<rparr>,
          \<lparr>single_id = [1, 0, 1], coordinates = [(1, 0)]\<rparr>],
        shape = [2, 2, 3], common = ()\<rparr> \<and>
   sorted_wrt lexicographical_compare
     [[0, 0, 0], [0, 0, 1], [0, 1, 0], [0, 1, 1], [1, 0, 0], [1, 0, 1]] \<and>
   build_curtain
     \<lparr>dim0s = [3, 0, 1], dim1s = [0, 2, 1], curtain_task.shape = [4, 1, 5],
      curtain_task.common = ()\<rparr>
     \<lparr>dimensions = [[10, 20, 30, 40], [1, 2, 3], [0, 4, 8, 12, 16]]\<rparr> =
   Inr \<lparr>ids =
         [\<lparr>single_id = [0, 0, 0], coordinates = [(3, 0)]\<rparr>,
          \<lparr>single_id = [0, 1, 0], coordinates = [(1, 0)]\<rparr>,
          \<lparr>single_id = [0, 2, 0], coordinates = [(0, 0)]\<rparr>],
        shape = [4, 1, 5], common = ()\<rparr> \<and>
   build_curtain
     \<lparr>dim0s = [3, 0, 1], dim1s = [0, 2, 1], curtain_task.shape = [2147483647, 2, 3],
      curtain_task.common = ()\<rparr>
     \<lparr>dimensions = [[10, 20, 30, 40], [1, 2, 3], [0, 4, 8, 12, 16]]\<rparr> =
   Inl (AllocationFailed ''vector::reserve'')"
proof -
  let ?m = "\<lparr>dimensions = [[10, 20, 30, 40], [1, 2, 3], [0, 4, 8, 12, 16]]\<rparr>"
  let ?t = "\<lparr>dim0s = [3, 0, 1], dim1s = [0, 2, 1], curtain_task.shape = [2, 2, 3],
             curtain_task.common = ()\<rparr>"
  let ?v = "\<lparr>dim0s = [3, 0, 1], dim1s = [0, 2, 1], curtain_task.shape = [4, 1, 5],
             curtain_task.common = ()\<rparr>"
  let ?w = "\<lparr>dim0s = [3, 0, 1], dim1s = [0, 2, 1], curtain_task.shape = [2147483647, 2, 3],
             curtain_task.common = ()\<rparr>"
  let ?out = "\<lparr>ids =
         [\<lparr>single_id = [0, 0, 0], coordinates = [(1, 1)]\<rparr>,
          \<lparr>single_id = [0, 0, 1], coordinates = [(1, 1)]\<rparr>,
          \<lparr>single_id = [0, 1, 0], coordinates = [(0, 0)]\<rparr>,
          \<lparr>single_id = [0, 1, 1], coordinates = [(0, 0)]\<rparr>,
          \<lparr>single_id = [1, 0, 0], coordinates = [(1, 0)]\<rparr>,
          \<lparr>single_id = [1, 0, 1], coordinates = [(1, 0)]\<rparr>],
        shape = [2, 2, 3], common = ()\<rparr>"
  have h1: "3 \<le> length (dimensions ?m)" by simp
  have h2: "3 \<le> length (curtain_task.shape ?t)" by simp
  have h3: "\<forall>i<3. 0 < curtain_task.shape ?t ! i" by (simp add: lt3)
  have h4: "length (dim0s ?t) = length (dim1s ?t)" by simp
  have w2: "3 \<le> length (curtain_task.shape ?w)" by simp
  have w3: "\<forall>i<3. 0 < curtain_task.shape ?w ! i" by (simp add: lt3)
  have w4: "length (dim0s ?w) = length (dim1s ?w)" by simp
  have w5: "\<not> max (curtain_task.shape ?w ! 0) (curtain_task.shape ?w ! 1) * 6 div 5 < 2 ^ 31 \<and>
            dim0s ?w \<noteq> []"
    by simp
  have e: "build_curtain ?t ?m = Inr ?out" by code_simp
  have e': "build_curtain ?v ?m =
    Inr \<lparr>ids =
         [\<lparr>single_id = [0, 0, 0], coordinates = [(3, 0)]\<rparr>,
          \<lparr>single_id = [0, 1, 0], coordinates = [(1, 0)]\<rparr>,
          \<lparr>single_id = [0, 2, 0], coordinates = [(0, 0)]\<rparr>],
        shape = [4, 1, 5], common = ()\<rparr>"
    by code_simp
  note k = build_curtain_columns [OF h1 h2 h3 h4, THEN conjunct2, THEN conjunct2,
      THEN conjunct2, rule_format, OF e]
  have srt: "sorted_wrt lexicographical_compare
     [[0, 0, 0], [0, 0, 1], [0, 1, 0], [0, 1, 1], [1, 0, 0], [1, 0, 1]]"
    using k [THEN conjunct1] by simp
  have f: "build_curtain ?w ?m = Inl (AllocationFailed ''vector::reserve'')"
    by (rule build_curtain_columns [OF h1 w2 w3 w4, THEN conjunct2, THEN conjunct2,
          THEN conjunct1, rule_format, OF w5])
  show ?thesis using h1 h4 e e' srt f by (intro conjI)
qed

subsection \<open>Broker: the status endpoint\<close>

text \<open>
  Claim C7, as the code has it. The status endpoint answers 202 with status \<open>pending\<close>
  when the header key is absent. When the header is read, unpacks with at least one task
  and the length of the stream is read, it answers 200 with status \<open>finished\<close> and progress
  \<open>n/n\<close> if the length equals \<open>ntasks\<close>, and 202 with status \<open>working\<close> and progress
  \<open>k/n\<close> otherwise. When the store fails, the header does not unpack or has no task, it
  answers 500. It reports \<open>finished\<close> only when the length of the stream equals
  \<open>ntasks\<close>, hence never while it is smaller.
\<close>

theorem status_cases:
  "(Get r (headerkey pid) = Nil \<longrightarrow>
      Status Unpack r pid =
        JSON 202 [(''location'', ''result/'' @ pid @ ''/status''), (''status'', ''pending'')]) \<and>
   (\<forall>body proc count.
      Get r (headerkey pid) = Ok body \<and> Unpack body = Inr proc \<and> 1 \<le> Ntasks proc \<and>
      XLen r pid = Inr count \<longrightarrow>
      Status Unpack r pid =
        (if count = Ntasks proc
         then JSON 200 [(''location'', ''result/'' @ pid), (''status'', ''finished''),
                        (''progress'', fmt_d (Ntasks proc) @ ''/'' @ fmt_d (Ntasks proc))]
         else JSON 202 [(''location'', ''result/'' @ pid @ ''/status''), (''status'', ''working''),
                        (''progress'', fmt_d count @ ''/'' @ fmt_d (Ntasks proc))])) \<and>
   (\<forall>body. (\<exists>e. Get r (headerkey pid) = Err e) \<or>
           Get r (headerkey pid) = Ok body \<and>
             ((\<exists>e. Unpack body = Inl e) \<or> (\<exists>proc. Unpack body = Inr proc \<and> Ntasks proc \<le> 0) \<or>
              (\<exists>e. XLen r pid = Inl e)) \<longrightarrow>
      Status Unpack r pid = Abort 500 []) \<and>
   (\<forall>code fields. Status Unpack r pid = JSON code fields \<and> (''status'', ''finished'') \<in> set fields \<longrightarrow>
      (\<exists>body proc. Get r (headerkey pid) = Ok body \<and> Unpack body = Inr proc \<and>
         XLen r pid = Inr (Ntasks proc)))"
proof -
  have a: "Get r (headerkey pid) = Nil \<longrightarrow>
      Status Unpack r pid =
        JSON 202 [(''location'', ''result/'' @ pid @ ''/status''), (''status'', ''pending'')]"
    by (simp add: Status_def)
  have b: "\<forall>body proc count.
      Get r (headerkey pid) = Ok body \<and> Unpack body = Inr proc \<and> 1 \<le> Ntasks proc \<and>
      XLen r pid = Inr count \<longrightarrow>
      Status Unpack r pid =
        (if count = Ntasks proc
         then JSON 200 [(''location'', ''result/'' @ pid), (''status'', ''finished''),
                        (''progress'', fmt_d (Ntasks proc) @ ''/'' @ fmt_d (Ntasks proc))]
         else JSON 202 [(''location'', ''result/'' @ pid @ ''/status''), (''status'', ''working''),
                        (''progress'', fmt_d count @ ''/'' @ fmt_d (Ntasks proc))])"
    by (simp add: Status_def parseProcessHeader_def)
  have c: "\<forall>body. (\<exists>e. Get r (headerkey pid) = Err e) \<or>
           Get r (headerkey pid) = Ok body \<and>
             ((\<exists>e. Unpack body = Inl e) \<or> (\<exists>proc. Unpack body = Inr proc \<and> Ntasks proc \<le> 0) \<or>
              (\<exists>e. XLen r pid = Inl e)) \<longrightarrow>
      Status Unpack r pid = Abort 500 []"
    by (auto simp: Status_def parseProcessHeader_def split: sum.splits)
  have d: "\<forall>code fields. Status Unpack r pid = JSON code fields \<and> (''status'', ''finished'') \<in> set fields \<longrightarrow>
      (\<exists>body proc. Get r (headerkey pid) = Ok body \<and> Unpack body = Inr proc \<and>
         XLen r pid = Inr (Ntasks proc))"
    by (auto simp: Status_def parseProcessHeader_def Let_def split: reply.splits sum.splits if_splits)
  show ?thesis using a b c d by blast
qed



text \<open>
  Four tasks: no header gives \<open>pending\<close>, two entries give \<open>working\<close> with \<open>2/4\<close>, four
  entries give \<open>finished\<close> with \<open>4/4\<close>.
\<close>

theorem status_cases_witness:
  "Status example_unpack (example_store Nil 0 []) ''p'' =
     JSON 202 [(''location'', ''result/p/status''), (''status'', ''pending'')] \<and>
   Status example_unpack (example_store (Ok ''n4'') 2 []) ''p'' =
     JSON 202 [(''location'', ''result/p/status''), (''status'', ''working''),
               (''progress'', ''2/4'')] \<and>
   Status example_unpack (example_store (Ok ''n4'') 4 []) ''p'' =
     JSON 200 [(''location'', ''result/p''), (''status'', ''finished''), (''progress'', ''4/4'')]"
proof -
  have k: "headerkey ''p'' = ''p/header.json''" by (simp add: headerkey_def)
  have u: "example_unpack ''n4'' = Inr \<lparr>Ntasks = 4, Shape = [], Index = []\<rparr>"
    by (simp add: example_unpack_def)
  have f: "fmt_d 2 = ''2''" "fmt_d 4 = ''4''" by code_simp+
  have g0: "Get (example_store Nil 0 []) (headerkey ''p'') = Nil"
    by (simp add: example_store_def k)
  have g: "Get (example_store (Ok ''n4'') n []) (headerkey ''p'') = Ok ''n4''" for n
    by (simp add: example_store_def k)
  have x: "XLen (example_store (Ok ''n4'') n []) ''p'' = Inr n" for n
    by (simp add: example_store_def)
  have a: "Status example_unpack (example_store Nil 0 []) ''p'' =
     JSON 202 [(''location'', ''result/p/status''), (''status'', ''pending'')]"
    using status_cases [of "example_store Nil 0 []" "''p''" example_unpack] g0 by simp
  have b: "Status example_unpack (example_store (Ok ''n4'') 2 []) ''p'' =
     JSON 202 [(''location'', ''result/p/status''), (''status'', ''working''),
               (''progress'', ''2/4'')]"
    using status_cases [of "example_store (Ok ''n4'') 2 []" "''p''" example_unpack] g [of 2] x [of 2] u f
    by simp
  have c: "Status example_unpack (example_store (Ok ''n4'') 4 []) ''p'' =
     JSON 200 [(''location'', ''result/p''), (''status'', ''finished''), (''progress'', ''4/4'')]"
    using status_cases [of "example_store (Ok ''n4'') 4 []" "''p''" example_unpack] g [of 4] x [of 4] u f
    by simp
  show ?thesis using a b c by blast
qed


text \<open>
  Claim C7 as stated, for every pid, fails on a header that is present but not valid:
  with a header of zero tasks and an empty stream the length equals \<open>ntasks\<close>, and the
  answer is 500, not \<open>finished\<close>; with a header that does not unpack the answer is 500,
  not \<open>working\<close>.
\<close>

theorem status_zero_tasks_counterexample:
  "Get (example_store (Ok ''n0'') 0 []) (headerkey ''p'') = Ok ''n0'' \<and>
   example_unpack ''n0'' = Inr \<lparr>Ntasks = 0, Shape = [], Index = []\<rparr> \<and>
   XLen (example_store (Ok ''n0'') 0 []) ''p'' = Inr 0 \<and>
   Status example_unpack (example_store (Ok ''n0'') 0 []) ''p'' = Abort 500 [] \<and>
   Status example_unpack (example_store (Ok ''garbage'') 4 []) ''p'' = Abort 500 []"
  by (simp add: Status_def parseProcessHeader_def example_store_def example_unpack_def
        headerkey_def)

subsection \<open>Broker: the one-shot endpoint\<close>















subsection \<open>Broker: the frames of the streaming endpoint\<close>

lemma decimal_small: "n < 10 \<Longrightarrow> decimal n = [digit_char n]"
  by (subst decimal.simps) simp

lemma decimal_large: "\<not> n < 10 \<Longrightarrow> decimal n = decimal (n div 10) @ [digit_char (n mod 10)]"
  by (subst decimal.simps) simp

lemma length_decimal: "n < 10 ^ k \<Longrightarrow> 0 < k \<Longrightarrow> length (decimal n) \<le> k"
proof (induction n arbitrary: k rule: decimal.induct)
  case (1 n)
  show ?case
  proof (cases "n < 10")
    case True
    then show ?thesis using "1.prems" by (simp add: decimal_small)
  next
    case False
    obtain j where k: "k = Suc j" using "1.prems"(2) by (cases k) auto
    have "n div 10 < 10 ^ j" using "1.prems"(1) k by (simp add: less_mult_imp_div_less mult.commute)
    moreover have "0 < j" using False "1.prems"(1) k by (cases j) auto
    ultimately have "length (decimal (n div 10)) \<le> j" using "1.IH" False by simp
    then show ?thesis using False k by (simp add: decimal_large)
  qed
qed

lemma of_char_digit_char: "d < 10 \<Longrightarrow> (of_char (digit_char d) :: nat) = 48 + d"
  by (simp add: digit_char_def)

lemma is_digit_digit_char: "d < 10 \<Longrightarrow> is_digit (digit_char d)"
  by (simp add: is_digit_def of_char_digit_char)

lemma digit_value_digit_char: "d < 10 \<Longrightarrow> digit_value (digit_char d) = d"
  by (simp add: digit_value_def of_char_digit_char)

lemma digits_decimal: "c \<in> set (decimal n) \<Longrightarrow> is_digit c"
proof (induction n rule: decimal.induct)
  case (1 n)
  show ?case
  proof (cases "n < 10")
    case True
    then show ?thesis using "1.prems" by (simp add: decimal_small is_digit_digit_char)
  next
    case False
    then show ?thesis using "1.prems" "1.IH" by (auto simp: decimal_large is_digit_digit_char)
  qed
qed

lemma decimal_value_snoc: "decimal_value (ds @ [c]) = 10 * decimal_value ds + digit_value c"
  by (simp add: decimal_value_def)

lemma decimal_value_decimal: "decimal_value (decimal n) = n"
proof (induction n rule: decimal.induct)
  case (1 n)
  show ?case
  proof (cases "n < 10")
    case True
    then show ?thesis by (simp add: decimal_small decimal_value_def digit_value_digit_char)
  next
    case False
    then show ?thesis using "1.IH"
      by (simp add: decimal_large decimal_value_snoc digit_value_digit_char)
  qed
qed

lemma decimal_value_replicate_zero: "decimal_value (replicate m CHR ''0'') = 0"
proof (induction m)
  case 0
  show ?case by (simp add: decimal_value_def)
next
  case (Suc m)
  have "replicate (Suc m) CHR ''0'' = replicate m CHR ''0'' @ [CHR ''0'']"
    by (simp add: replicate_append_same)
  then show ?case using Suc by (simp only: decimal_value_snoc) (simp add: digit_value_def)
qed

lemma decimal_value_zeros: "decimal_value (replicate m CHR ''0'' @ ds) = decimal_value ds"
proof -
  have "decimal_value (zs @ ds) = foldl (\<lambda>n c. 10 * n + digit_value c) (decimal_value zs) ds" for zs
    by (simp add: decimal_value_def)
  then show ?thesis by (simp add: decimal_value_replicate_zero) (simp add: decimal_value_def)
qed

lemma is_digit_zero: "is_digit CHR ''0''"
  by (simp add: is_digit_def)


lemma sprintf_010d_nonneg:
  assumes "n < 10 ^ 10"
  shows "length (sprintf_010d (int n)) = 10" and "\<forall>c \<in> set (sprintf_010d (int n)). is_digit c"
    and "decimal_value (sprintf_010d (int n)) = n"
proof -
  have l: "length (decimal n) \<le> 10" using assms by (rule length_decimal) simp
  show "length (sprintf_010d (int n)) = 10" using l by (simp add: sprintf_010d_def)
  show "\<forall>c \<in> set (sprintf_010d (int n)). is_digit c"
    by (auto simp: sprintf_010d_def is_digit_zero digits_decimal)
  show "decimal_value (sprintf_010d (int n)) = n"
    by (simp add: sprintf_010d_def decimal_value_zeros decimal_value_decimal)
qed

lemma stream_loop_tiles:
  "stream_loop (map Tile outputs @ evs) = map stream_frame outputs @ stream_loop evs"
  by (induction outputs) simp_all


lemma digit_char_values:
  "digit_char 0 = CHR ''0''" "digit_char (Suc 0) = CHR ''1''" "digit_char 2 = CHR ''2''"
  "digit_char 3 = CHR ''3''" "digit_char 4 = CHR ''4''" "digit_char 5 = CHR ''5''"
  "digit_char 6 = CHR ''6''" "digit_char 7 = CHR ''7''" "digit_char 8 = CHR ''8''"
  "digit_char 9 = CHR ''9''"
  by code_simp+


text \<open>
  Claim C9, as the code has it. For every frame whose payload is shorter than
  \<open>10 ^ 10 - 10\<close> bytes, the streaming endpoint writes ten ASCII digits, the zero-padded
  decimal of 10 plus the payload size, followed by the payload; for a payload of 240
  bytes these are the ten bytes \<open>0000000250\<close> and the 240 bytes. The loop writes one such
  frame per tile.
\<close>

theorem stream_frame_prefix:
  assumes "length output + 10 < 10 ^ 10"
  shows "length (take 10 (stream_frame output)) = 10 \<and>
         (\<forall>c \<in> set (take 10 (stream_frame output)). is_digit c) \<and>
         decimal_value (take 10 (stream_frame output)) = 10 + length output \<and>
         drop 10 (stream_frame output) = output \<and>
         (length output = 240 \<longrightarrow> stream_frame output = ''0000000250'' @ output) \<and>
         (\<forall>outputs. stream_loop (map Tile outputs) = map stream_frame outputs)"
proof -
  let ?p = "sprintf_010d (int (10 + length output))"
  have n: "10 + length output < 10 ^ 10" using assms by simp
  have f: "stream_frame output = ?p @ output" by (simp add: stream_frame_def)
  have l: "length ?p = 10" using n by (rule sprintf_010d_nonneg)
  have d: "\<forall>c \<in> set ?p. is_digit c" using n by (rule sprintf_010d_nonneg)
  have v: "decimal_value ?p = 10 + length output" using n by (rule sprintf_010d_nonneg)
  have t: "take 10 (stream_frame output) = ?p" and r: "drop 10 (stream_frame output) = output"
    using l by (simp_all add: f)
  have e: "sprintf_010d 250 = ''0000000250''" by code_simp
  have s: "length output = 240 \<longrightarrow> stream_frame output = ''0000000250'' @ output"
    using e by (simp add: stream_frame_def)
  have w: "\<forall>outputs. stream_loop (map Tile outputs) = map stream_frame outputs"
    using stream_loop_tiles [of _ "[]"] by simp
  show ?thesis unfolding t using l d v r s w by blast
qed

text \<open>A tile of 240 bytes.\<close>

theorem stream_frame_prefix_witness:
  "length (replicate 240 CHR ''x'') + 10 < (10::nat) ^ 10 \<and>
   take 10 (stream_frame (replicate 240 CHR ''x'')) = ''0000000250'' \<and>
   drop 10 (stream_frame (replicate 240 CHR ''x'')) = replicate 240 CHR ''x'' \<and>
   decimal_value (take 10 (stream_frame (replicate 240 CHR ''x''))) = 250"
proof -
  have h: "length (replicate 240 CHR ''x'') + 10 < (10::nat) ^ 10" by simp
  have l: "length (replicate 240 CHR ''x'') = 240" by simp
  from stream_frame_prefix [OF h]
  have a: "stream_frame (replicate 240 CHR ''x'') = ''0000000250'' @ replicate 240 CHR ''x''"
    and b: "decimal_value (take 10 (stream_frame (replicate 240 CHR ''x''))) =
            10 + length (replicate 240 CHR ''x'')"
    and c: "drop 10 (stream_frame (replicate 240 CHR ''x'')) = replicate 240 CHR ''x''"
    using l by blast+
  have "take 10 (stream_frame (replicate 240 CHR ''x'')) = ''0000000250''"
    unfolding a by simp
  moreover have "decimal_value (take 10 (stream_frame (replicate 240 CHR ''x''))) = 250"
    unfolding b by simp
  ultimately show ?thesis using h c by blast
qed

text \<open>
  Claim C9 as stated, for every frame, fails for a payload of \<open>10 ^ 10 - 10\<close> bytes:
  \<^verbatim>\<open>%010d\<close> pads to ten characters but does not truncate, and the prefix has eleven.
\<close>

theorem stream_frame_long_counterexample:
  "stream_frame (replicate 9999999990 CHR ''x'') = ''10000000000'' @ replicate 9999999990 CHR ''x'' \<and>
   length ''10000000000'' = 11"
proof -
  have "decimal 10000000000 = ''10000000000''"
    by (simp add: decimal_large decimal_small digit_char_values)
  then show ?thesis by (simp add: stream_frame_def sprintf_010d_def)
qed


subsection \<open>Keyring: signing and validating\<close>

lemma toy_contract: "jwt_contract toy_jwt"
  unfolding jwt_contract_def
proof (intro allI)
  fix key m
  have "SignedString toy_jwt key m = Inr (key, m)"
    by (simp add: toy_jwt_def toy_signed_string_def)
  moreover have "\<forall>now. Parse toy_jwt now (key, m) key =
           (case map_of m ''exp'' of
              Some (CNumber exp) \<Rightarrow>
                if now \<le> exp then Inr \<lparr>Claims = MapClaims m, Valid = True\<rparr>
                else Inl ''Token is expired''
            | _ \<Rightarrow> Inr \<lparr>Claims = MapClaims m, Valid = True\<rparr>)"
    by (simp add: toy_jwt_def toy_parse_def split: option.split claim.split)
  ultimately show "\<exists>tok. SignedString toy_jwt key m = Inr tok \<and>
        (\<forall>now. Parse toy_jwt now tok key =
           (case map_of m ''exp'' of
              Some (CNumber exp) \<Rightarrow>
                if now \<le> exp then Inr \<lparr>Claims = MapClaims m, Valid = True\<rparr>
                else Inl ''Token is expired''
            | _ \<Rightarrow> Inr \<lparr>Claims = MapClaims m, Valid = True\<rparr>))"
    by blast
qed


text \<open>
  Claim C6. With a library that keeps \<open>jwt_contract\<close> and one pre-shared key: \<open>Sign p\<close>
  signs the claims \<open>pid = p\<close> and \<open>exp\<close> = the time of issuance plus 5 minutes (300
  seconds); validating the signed token for \<open>p\<close> succeeds up to that time; validating it
  for any \<open>q \<noteq> p\<close> fails; validating it after that time fails, as does validating any
  token of \<open>SignWithTimeout\<close> after its expiration.
\<close>

theorem keyring_sign_validate:
  assumes "jwt_contract lib"
  shows "Sign lib key now p =
           SignedString lib key [(''pid'', CString p), (''exp'', CNumber (now + 300))] \<and>
         (\<exists>tok. Sign lib key now p = Inr tok \<and>
            (\<forall>t. t \<le> now + 300 \<longrightarrow> Validate lib key t tok p = None) \<and>
            (\<forall>t q. q \<noteq> p \<longrightarrow> Validate lib key t tok q \<noteq> None) \<and>
            (\<forall>t q. now + 300 < t \<longrightarrow> Validate lib key t tok q \<noteq> None)) \<and>
         (\<forall>exp q t. \<exists>tok. SignWithTimeout lib key p exp = Inr tok \<and>
            (exp < t \<longrightarrow> Validate lib key t tok q \<noteq> None))"
proof -
  have s: "Sign lib key now p =
           SignedString lib key [(''pid'', CString p), (''exp'', CNumber (now + 300))]"
    by (simp add: Sign_def SignWithTimeout_def)
  have c: "\<exists>tok. SignedString lib key [(''pid'', CString p), (''exp'', CNumber exp)] = Inr tok \<and>
        (\<forall>t. Parse lib t tok key =
           (if t \<le> exp
            then Inr \<lparr>Claims = MapClaims [(''pid'', CString p), (''exp'', CNumber exp)], Valid = True\<rparr>
            else Inl ''Token is expired''))" for exp
    using assms [unfolded jwt_contract_def, rule_format,
        of key "[(''pid'', CString p), (''exp'', CNumber exp)]"]
    by simp
  obtain tok where tok: "SignedString lib key [(''pid'', CString p), (''exp'', CNumber (now + 300))] = Inr tok"
    and parse: "\<And>t. Parse lib t tok key =
           (if t \<le> now + 300
            then Inr \<lparr>Claims = MapClaims [(''pid'', CString p), (''exp'', CNumber (now + 300))], Valid = True\<rparr>
            else Inl ''Token is expired'')"
    using c [of "now + 300"] by blast
  have ok: "\<forall>t. t \<le> now + 300 \<longrightarrow> Validate lib key t tok p = None"
    by (simp add: Validate_def parse)
  have other: "\<forall>t q. q \<noteq> p \<longrightarrow> Validate lib key t tok q \<noteq> None"
    by (simp add: Validate_def parse)
  have late: "\<forall>t q. now + 300 < t \<longrightarrow> Validate lib key t tok q \<noteq> None"
    by (simp add: Validate_def parse)
  have custom: "\<forall>exp q t. \<exists>tok. SignWithTimeout lib key p exp = Inr tok \<and>
            (exp < t \<longrightarrow> Validate lib key t tok q \<noteq> None)"
  proof (intro allI)
    fix exp q t
    obtain tok' where "SignedString lib key [(''pid'', CString p), (''exp'', CNumber exp)] = Inr tok'"
      and "\<And>t. Parse lib t tok' key =
           (if t \<le> exp
            then Inr \<lparr>Claims = MapClaims [(''pid'', CString p), (''exp'', CNumber exp)], Valid = True\<rparr>
            else Inl ''Token is expired'')"
      using c [of exp] by blast
    then show "\<exists>tok. SignWithTimeout lib key p exp = Inr tok \<and>
            (exp < t \<longrightarrow> Validate lib key t tok q \<noteq> None)"
      by (auto simp: SignWithTimeout_def Validate_def)
  qed
  show ?thesis using s tok ok other late custom by auto
qed

text \<open>
  A token for \<open>p\<close> issued at second 1000: good for \<open>p\<close> at 1200, not for \<open>q\<close>, and not
  at 1301.
\<close>

theorem keyring_sign_validate_witness:
  "jwt_contract toy_jwt \<and>
   Sign toy_jwt ''k'' 1000 ''p'' = Inr (''k'', [(''pid'', CString ''p''), (''exp'', CNumber 1300)]) \<and>
   Validate toy_jwt ''k'' 1200 (''k'', [(''pid'', CString ''p''), (''exp'', CNumber 1300)]) ''p'' = None \<and>
   Validate toy_jwt ''k'' 1200 (''k'', [(''pid'', CString ''p''), (''exp'', CNumber 1300)]) ''q'' \<noteq> None \<and>
   Validate toy_jwt ''k'' 1301 (''k'', [(''pid'', CString ''p''), (''exp'', CNumber 1300)]) ''p'' \<noteq> None"
proof -
  let ?tok = "(''k'', [(''pid'', CString ''p''), (''exp'', CNumber 1300)])"
  have h: "jwt_contract toy_jwt" by (rule toy_contract)
  have e: "Sign toy_jwt ''k'' 1000 ''p'' = Inr ?tok"
    by (simp add: Sign_def SignWithTimeout_def toy_jwt_def toy_signed_string_def)
  note k = keyring_sign_validate [OF h, of "''k''" 1000 "''p''", THEN conjunct2, THEN conjunct1]
  obtain tok where t: "Sign toy_jwt ''k'' 1000 ''p'' = Inr tok"
    and a: "\<forall>t. t \<le> 1000 + 300 \<longrightarrow> Validate toy_jwt ''k'' t tok ''p'' = None"
    and b: "\<forall>t q. q \<noteq> ''p'' \<longrightarrow> Validate toy_jwt ''k'' t tok q \<noteq> None"
    and c: "\<forall>t q. 1000 + 300 < t \<longrightarrow> Validate toy_jwt ''k'' t tok q \<noteq> None"
    using k by (elim exE conjE)
  have tok: "tok = ?tok" using t e by simp
  have a': "Validate toy_jwt ''k'' 1200 tok ''p'' = None"
    by (rule a [rule_format]) simp
  have b': "Validate toy_jwt ''k'' 1200 tok ''q'' \<noteq> None"
    by (rule b [rule_format]) simp
  have c': "Validate toy_jwt ''k'' 1301 tok ''p'' \<noteq> None"
    by (rule c [rule_format]) simp
  show ?thesis using h e a' b' c' unfolding tok by (intro conjI)
qed

end
